theory Spec2Isabelle
  imports Complex_Main
begin

section \<open>Floating-point values and Python exceptions\<close>

text \<open>
  The statistical kernel of \<^verbatim>\<open>pcigale/stats/psum.py\<close> computes on numpy arrays of
  floats. A float is modelled as an exact real number or one of the three special values
  of IEEE arithmetic: rounding, overflow and the sign of zero are left out, while every
  division by zero and every square root of a negative number yields the special value
  numpy yields (numpy warns there and does not raise), and the exponential underflows
  to 0.
\<close>

datatype npfloat = Fin real | PInf | MInf | NaN

text \<open>
  The exceptions the modelled functions can raise. The first two are both Python's
  \<^verbatim>\<open>ValueError\<close>: the one raised explicitly on arrays of different lengths, and the one
  the builtins \<^verbatim>\<open>max\<close> and \<^verbatim>\<open>min\<close> raise on an empty sequence. \<open>ShapeMismatch\<close> is the
  \<^verbatim>\<open>TypeError\<close> of \<^verbatim>\<open>numpy.average\<close>; the last two are the \<^verbatim>\<open>ValueError\<close> of
  \<^verbatim>\<open>numpy.linspace\<close> on a negative number of samples and that of \<^verbatim>\<open>numpy.digitize\<close>
  on bins that are not monotonic. \<open>EmptySequence\<close> is also the \<^verbatim>\<open>ValueError\<close> of
  numpy's \<^verbatim>\<open>min\<close> and \<^verbatim>\<open>max\<close> of an empty array. The last three are what the
  kernel density estimator of scipy raises: \<^verbatim>\<open>LinAlgError\<close>, a \<^verbatim>\<open>ValueError\<close> of
  its own, or anything else.
\<close>

datatype py_error =
    LengthMismatch
  | EmptySequence
  | ZeroDivisionError
  | ShapeMismatch
  | IndexError
  | NegativeSamples
  | NotMonotonic
  | LinAlgError
  | ValueError
  | OtherError

fun np_neg :: "npfloat \<Rightarrow> npfloat" where
  "np_neg (Fin a) = Fin (- a)"
| "np_neg PInf = MInf"
| "np_neg MInf = PInf"
| "np_neg NaN = NaN"

fun np_add :: "npfloat \<Rightarrow> npfloat \<Rightarrow> npfloat" where
  "np_add (Fin a) (Fin b) = Fin (a + b)"
| "np_add NaN _ = NaN"
| "np_add _ NaN = NaN"
| "np_add PInf MInf = NaN"
| "np_add MInf PInf = NaN"
| "np_add PInf _ = PInf"
| "np_add _ PInf = PInf"
| "np_add MInf _ = MInf"
| "np_add _ MInf = MInf"

definition np_sub :: "npfloat \<Rightarrow> npfloat \<Rightarrow> npfloat" where
  "np_sub x y = np_add x (np_neg y)"

text \<open>The sign of a product or quotient with an infinite operand; zero counts as positive.\<close>

fun np_nonneg :: "npfloat \<Rightarrow> bool" where
  "np_nonneg (Fin a) = (0 \<le> a)"
| "np_nonneg PInf = True"
| "np_nonneg MInf = False"
| "np_nonneg NaN = True"

definition np_signed_inf :: "bool \<Rightarrow> npfloat" where
  "np_signed_inf pos = (if pos then PInf else MInf)"

fun np_mul :: "npfloat \<Rightarrow> npfloat \<Rightarrow> npfloat" where
  "np_mul (Fin a) (Fin b) = Fin (a * b)"
| "np_mul NaN _ = NaN"
| "np_mul _ NaN = NaN"
| "np_mul (Fin a) y = (if a = 0 then NaN else np_signed_inf (np_nonneg (Fin a) = np_nonneg y))"
| "np_mul x (Fin b) = (if b = 0 then NaN else np_signed_inf (np_nonneg x = np_nonneg (Fin b)))"
| "np_mul x y = np_signed_inf (np_nonneg x = np_nonneg y)"

fun np_div :: "npfloat \<Rightarrow> npfloat \<Rightarrow> npfloat" where
  "np_div (Fin a) (Fin b) =
     (if b \<noteq> 0 then Fin (a / b)
      else if a = 0 then NaN
      else np_signed_inf (0 < a))"
| "np_div NaN _ = NaN"
| "np_div _ NaN = NaN"
| "np_div (Fin a) _ = Fin 0"
| "np_div x (Fin b) = np_signed_inf (np_nonneg x = np_nonneg (Fin b))"
| "np_div _ _ = NaN"

definition np_square :: "npfloat \<Rightarrow> npfloat" where
  "np_square x = np_mul x x"

text \<open>
  The exponential underflows: the least positive double is \<open>2 powr - 1074\<close>, and the
  exponential of an argument under about -745.13 is less than half of it and rounds to 0.
  The model returns 0 under -746, where every rounding does, and the exact exponential
  from there on.
\<close>

fun np_exp :: "npfloat \<Rightarrow> npfloat" where
  "np_exp (Fin a) = (if a < - 746 then Fin 0 else Fin (exp a))"
| "np_exp PInf = PInf"
| "np_exp MInf = Fin 0"
| "np_exp NaN = NaN"

fun np_sqrt :: "npfloat \<Rightarrow> npfloat" where
  "np_sqrt (Fin a) = (if a < 0 then NaN else Fin (sqrt a))"
| "np_sqrt PInf = PInf"
| "np_sqrt MInf = NaN"
| "np_sqrt NaN = NaN"

text \<open>Comparison: every comparison with a NaN is false.\<close>

fun np_less :: "npfloat \<Rightarrow> npfloat \<Rightarrow> bool" where
  "np_less (Fin a) (Fin b) = (a < b)"
| "np_less NaN _ = False"
| "np_less _ NaN = False"
| "np_less _ MInf = False"
| "np_less MInf _ = True"
| "np_less PInf _ = False"
| "np_less _ PInf = True"

text \<open>
  Python's builtins on a sequence. \<^verbatim>\<open>sum\<close> adds from the left, starting at 0;
  \<^verbatim>\<open>max\<close> and \<^verbatim>\<open>min\<close> keep the first element and replace it by a later one that
  compares strictly greater (smaller), and raise on an empty sequence.
\<close>

definition py_sum :: "npfloat list \<Rightarrow> npfloat" where
  "py_sum xs = foldl np_add (Fin 0) xs"

definition py_max2 :: "npfloat \<Rightarrow> npfloat \<Rightarrow> npfloat" where
  "py_max2 a b = (if np_less a b then b else a)"

definition py_min2 :: "npfloat \<Rightarrow> npfloat \<Rightarrow> npfloat" where
  "py_min2 a b = (if np_less b a then b else a)"

fun py_max :: "npfloat list \<Rightarrow> py_error + npfloat" where
  "py_max [] = Inl EmptySequence"
| "py_max (x # xs) = Inr (foldl py_max2 x xs)"

fun py_min :: "npfloat list \<Rightarrow> py_error + npfloat" where
  "py_min [] = Inl EmptySequence"
| "py_min (x # xs) = Inr (foldl py_min2 x xs)"

text \<open>
  numpy's boolean-mask indexing \<^verbatim>\<open>a[mask]\<close>: the elements of \<open>a\<close> at the positions
  where the mask is true, in order.
\<close>

definition np_select :: "bool list \<Rightarrow> 'a list \<Rightarrow> 'a list" where
  "np_select msk xs = map snd (filter fst (zip msk xs))"

section \<open>The statistical kernel: \<^verbatim>\<open>pcigale/stats/psum.py\<close>\<close>

definition TOLERANCE :: npfloat where
  "TOLERANCE = Fin (1 / 10 ^ 12)"

text \<open>The same threshold as a real number, for the statements about finite inputs.\<close>

abbreviation tol :: real where
  "tol \<equiv> 1 / 10 ^ 12"

subsection \<open>\<^verbatim>\<open>compute_chi2\<close>\<close>

text \<open>
  The two operands of the \<^verbatim>\<open>or\<close> of the degenerate-case test. Python evaluates the
  second only when the first is false, and either can raise.
\<close>

definition no_flux_over_tolerance :: "npfloat list \<Rightarrow> py_error + bool" where
  "no_flux_over_tolerance obs_fluxes =
     (case py_max obs_fluxes of
        Inl e \<Rightarrow> Inl e
      | Inr m \<Rightarrow> Inr (np_less m TOLERANCE))"

definition error_under_tolerance :: "npfloat list \<Rightarrow> npfloat list \<Rightarrow> py_error + bool" where
  "error_under_tolerance obs_fluxes obs_errors =
     (case py_min (np_select (map (\<lambda>f. np_less TOLERANCE f) obs_fluxes) obs_errors) of
        Inl e \<Rightarrow> Inl e
      | Inr m \<Rightarrow> Inr (np_less m TOLERANCE))"

definition degenerate :: "npfloat list \<Rightarrow> npfloat list \<Rightarrow> py_error + bool" where
  "degenerate obs_fluxes obs_errors =
     (case no_flux_over_tolerance obs_fluxes of
        Inl e \<Rightarrow> Inl e
      | Inr True \<Rightarrow> Inr True
      | Inr False \<Rightarrow> error_under_tolerance obs_fluxes obs_errors)"

text \<open>
  The quotient of two builtin sums. The builtin \<^verbatim>\<open>sum\<close> of an empty array is the
  Python integer 0, and the quotient of two Python integers raises on a zero divisor;
  as soon as one of the arrays has an element, the quotient is numpy's.
\<close>

definition py_sum_div :: "npfloat list \<Rightarrow> npfloat list \<Rightarrow> py_error + npfloat" where
  "py_sum_div xs ys =
     (if xs = [] \<and> ys = [] then Inl ZeroDivisionError
      else Inr (np_div (py_sum xs) (py_sum ys)))"

text \<open>The \<^verbatim>\<open>else\<close> branch: the fit over the filters whose error is over the tolerance.\<close>

definition fit_chi2 :: "npfloat list \<Rightarrow> npfloat list \<Rightarrow> npfloat list
    \<Rightarrow> py_error + (npfloat \<times> npfloat \<times> npfloat)" where
  "fit_chi2 model_fluxes0 obs_fluxes0 obs_errors0 =
     (let msk = map (\<lambda>e. np_less TOLERANCE e) obs_errors0;
          model_fluxes = np_select msk model_fluxes0;
          obs_fluxes = np_select msk obs_fluxes0;
          obs_errors = np_select msk obs_errors0;
          degrees_of_freedom = int (length model_fluxes) - 1
      in if degrees_of_freedom = 0 then
           (case py_sum_div obs_fluxes model_fluxes of
              Inl e \<Rightarrow> Inl e
            | Inr normalisation_factor \<Rightarrow> Inr (Fin 0, normalisation_factor, Fin 1))
         else
           (case py_sum_div (map2 np_mul obs_fluxes model_fluxes)
                            (map2 np_mul model_fluxes model_fluxes) of
              Inl e \<Rightarrow> Inl e
            | Inr normalisation_factor \<Rightarrow>
                let norm_model_fluxes = map (np_mul normalisation_factor) model_fluxes;
                    chi2 = py_sum (map np_square
                             (map2 np_div (map2 np_sub obs_fluxes norm_model_fluxes) obs_errors));
                    reduced_chi2 = np_div chi2 (Fin (of_int degrees_of_freedom));
                    reduced_chi2 = py_min2 reduced_chi2 (Fin 99);
                    probability = np_exp (np_div (np_neg chi2) (Fin 2))
                in Inr (reduced_chi2, normalisation_factor, probability)))"

text \<open>
  The function itself. The two length tests are the operands of the \<^verbatim>\<open>or\<close> guarding
  the \<^verbatim>\<open>raise\<close>, in the order Python evaluates them. The copies of the three arrays are
  left out: the function rebinds its local names and never writes into an array.
\<close>

definition compute_chi2 :: "npfloat list \<Rightarrow> npfloat list \<Rightarrow> npfloat list
    \<Rightarrow> py_error + (npfloat \<times> npfloat \<times> npfloat)" where
  "compute_chi2 model_fluxes obs_fluxes obs_errors =
     (if length model_fluxes \<noteq> length obs_fluxes then Inl LengthMismatch
      else if length obs_fluxes \<noteq> length obs_errors then Inl LengthMismatch
      else case degenerate obs_fluxes obs_errors of
        Inl e \<Rightarrow> Inl e
      | Inr True \<Rightarrow> Inr (Fin 99, Fin 1, Fin 0)
      | Inr False \<Rightarrow> fit_chi2 model_fluxes obs_fluxes obs_errors)"

text \<open>
  The errors of the filters whose observed flux is over the tolerance, for finite inputs:
  the selection whose minimum the degenerate-case test takes.
\<close>

definition flux_errors :: "real list \<Rightarrow> real list \<Rightarrow> real list" where
  "flux_errors ob e = map snd (filter (\<lambda>(f, x). tol < f) (zip ob e))"

text \<open>
  The filters kept for the fit, for finite inputs: the (model flux, observed flux, error)
  triples whose error is over the tolerance, dropped from the three arrays in lockstep.
\<close>

definition kept :: "real list \<Rightarrow> real list \<Rightarrow> real list \<Rightarrow> (real \<times> real \<times> real) list" where
  "kept m ob e = filter (\<lambda>(mf, obf, er). tol < er) (zip m (zip ob e))"

text \<open>
  The results as the specification words them, over the kept triples: the least-squares
  scale \<open>\<Sigma>(obs\<sqdot>model) / \<Sigma>(model\<^sup>2)\<close>, the chi-square
  \<open>\<Sigma>((obs - scale\<sqdot>model) / error)\<^sup>2\<close>, the reduced chi-square capped at 99 and the
  probability \<open>exp (- chi2 / 2)\<close>.
\<close>

definition spec_normalization :: "(real \<times> real \<times> real) list \<Rightarrow> npfloat" where
  "spec_normalization k =
     np_div (Fin (\<Sum>(mf, obf, er)\<leftarrow>k. obf * mf)) (Fin (\<Sum>(mf, obf, er)\<leftarrow>k. mf * mf))"

definition spec_chi2 :: "(real \<times> real \<times> real) list \<Rightarrow> npfloat" where
  "spec_chi2 k =
     py_sum (map (\<lambda>(mf, obf, er).
       np_square (np_div (np_sub (Fin obf) (np_mul (spec_normalization k) (Fin mf))) (Fin er))) k)"

definition spec_reduced_chi2 :: "(real \<times> real \<times> real) list \<Rightarrow> npfloat" where
  "spec_reduced_chi2 k = py_min2 (np_div (spec_chi2 k) (Fin (real (length k) - 1))) (Fin 99)"

definition spec_probability :: "(real \<times> real \<times> real) list \<Rightarrow> npfloat" where
  "spec_probability k = np_exp (np_div (np_neg (spec_chi2 k)) (Fin 2))"

text \<open>The same over the reals, where the sum of the squared model fluxes is not zero.\<close>

definition real_normalization :: "(real \<times> real \<times> real) list \<Rightarrow> real" where
  "real_normalization k = (\<Sum>(mf, obf, er)\<leftarrow>k. obf * mf) / (\<Sum>(mf, obf, er)\<leftarrow>k. mf * mf)"

definition real_chi2 :: "(real \<times> real \<times> real) list \<Rightarrow> real" where
  "real_chi2 k = (\<Sum>(mf, obf, er)\<leftarrow>k. ((obf - real_normalization k * mf) / er)\<^sup>2)"

subsection \<open>\<^verbatim>\<open>adjust_errors\<close>\<close>

text \<open>
  \<^verbatim>\<open>adjust_errors\<close> copies its error array and then writes into the copy, so the arrays
  live in a store: an array is an address, the store maps the addresses below \<open>lim\<close> to
  their contents, and a new array takes the address \<open>lim\<close>.
\<close>

type_synonym addr = nat

record store =
  arrays :: "addr \<Rightarrow> npfloat list"
  lim :: addr

definition alloc :: "npfloat list \<Rightarrow> store \<Rightarrow> store \<times> addr" where
  "alloc xs s = (s\<lparr>arrays := (arrays s)(lim s := xs), lim := Suc (lim s)\<rparr>, lim s)"

definition np_copy :: "store \<Rightarrow> addr \<Rightarrow> store \<times> addr" where
  "np_copy s a = alloc (arrays s a) s"

text \<open>
  The assignment \<^verbatim>\<open>a[mask] = vals\<close>: the successive values go to the positions where
  the mask is true. The values assigned below are as many as these positions.
\<close>

fun np_put :: "bool list \<Rightarrow> 'a list \<Rightarrow> 'a list \<Rightarrow> 'a list" where
  "np_put (True # ms) (v # vs) (x # xs) = v # np_put ms vs xs"
| "np_put (False # ms) vs (x # xs) = x # np_put ms vs xs"
| "np_put _ _ xs = xs"

definition adjust_errors :: "store \<Rightarrow> addr \<Rightarrow> addr \<Rightarrow> npfloat \<Rightarrow> npfloat
    \<Rightarrow> py_error + (store \<times> addr)" where
  "adjust_errors s flux error0 default_error systematic_deviation =
     (if length (arrays s flux) \<noteq> length (arrays s error0) then Inl LengthMismatch
      else
        let (s1, error) = np_copy s error0;
            msk = map (\<lambda>x. np_less x TOLERANCE) (arrays s1 error);
            vals = map (np_mul default_error) (np_select msk (arrays s1 error));
            s2 = s1\<lparr>arrays := (arrays s1)(error := np_put msk vals (arrays s1 error))\<rparr>;
            (s3, error) = alloc
              (map np_sqrt
                (map2 np_add (map np_square (arrays s2 error))
                   (map np_square (map (\<lambda>f. np_mul f systematic_deviation) (arrays s2 flux)))))
              s2
        in Inr (s3, error))"

text \<open>The call with the default values of the two keyword parameters.\<close>

definition adjust_errors_default :: "store \<Rightarrow> addr \<Rightarrow> addr \<Rightarrow> py_error + (store \<times> addr)" where
  "adjust_errors_default s flux error0 = adjust_errors s flux error0 (Fin (1 / 10)) (Fin (1 / 10))"

text \<open>
  What the function does to one error \<open>e\<close> and its flux \<open>f\<close>, as the specification
  words it: an error under the tolerance is first multiplied by the default error factor,
  then the error is combined with the systematic term, \<open>sqrt (e\<^sup>2 + (f \<sqdot> deviation)\<^sup>2)\<close>.
\<close>

definition rescaled :: "npfloat \<Rightarrow> npfloat \<Rightarrow> npfloat" where
  "rescaled default_error e = (if np_less e TOLERANCE then np_mul default_error e else e)"

definition adjusted :: "npfloat \<Rightarrow> npfloat \<Rightarrow> npfloat \<Rightarrow> npfloat \<Rightarrow> npfloat" where
  "adjusted default_error systematic_deviation e f =
     np_sqrt (np_add (np_square (rescaled default_error e))
                     (np_square (np_mul f systematic_deviation)))"

subsection \<open>\<^verbatim>\<open>w_mean_sigma\<close>\<close>

text \<open>
  numpy's \<^verbatim>\<open>sum\<close> and \<^verbatim>\<open>dot\<close> of one-dimensional arrays, and \<^verbatim>\<open>average\<close> with
  weights as numpy documents and implements it: it raises \<^verbatim>\<open>TypeError\<close> when the two
  shapes differ (no axis is given), \<^verbatim>\<open>ZeroDivisionError\<close> when the weights sum to zero,
  and otherwise returns the sum of the products over the sum of the weights.
\<close>

definition np_sum :: "npfloat list \<Rightarrow> npfloat" where
  "np_sum xs = foldl np_add (Fin 0) xs"

definition np_dot :: "npfloat list \<Rightarrow> npfloat list \<Rightarrow> npfloat" where
  "np_dot xs ys = np_sum (map2 np_mul xs ys)"

definition np_average :: "npfloat list \<Rightarrow> npfloat list \<Rightarrow> py_error + npfloat" where
  "np_average a weights =
     (if length a \<noteq> length weights then Inl ShapeMismatch
      else let scl = np_sum weights
           in if scl = Fin 0 then Inl ZeroDivisionError
              else Inr (np_div (np_sum (map2 np_mul a weights)) scl))"

definition w_mean_sigma :: "npfloat list \<Rightarrow> npfloat list \<Rightarrow> py_error + (npfloat \<times> npfloat)" where
  "w_mean_sigma values weights =
     (case np_average values weights of
        Inl e \<Rightarrow> Inl e
      | Inr mean \<Rightarrow>
          let variance = np_div (np_dot weights (map (\<lambda>v. np_square (np_sub v mean)) values))
                                (np_sum weights)
          in Inr (mean, np_sqrt variance))"

text \<open>The weighted mean and standard deviation as the specification words them.\<close>

definition weighted_mean :: "real list \<Rightarrow> real list \<Rightarrow> real" where
  "weighted_mean vs ws = (\<Sum>(w, v)\<leftarrow>zip ws vs. w * v) / sum_list ws"

definition weighted_std :: "real list \<Rightarrow> real list \<Rightarrow> real" where
  "weighted_std vs ws =
     sqrt ((\<Sum>(w, v)\<leftarrow>zip ws vs. w * (v - weighted_mean vs ws)\<^sup>2) / sum_list ws)"

subsection \<open>\<^verbatim>\<open>bin_evenly\<close>\<close>

text \<open>
  The values are finite floats, taken as reals. \<^verbatim>\<open>numpy.linspace\<close> with its default
  end point: \<open>num\<close> evenly spaced samples from \<open>start\<close> to \<open>stop\<close>.
\<close>

definition np_linspace :: "real \<Rightarrow> real \<Rightarrow> int \<Rightarrow> py_error + real list" where
  "np_linspace start stop num =
     (if num < 0 then Inl NegativeSamples
      else if num = 1 then Inr [start]
      else Inr (map (\<lambda>i. start + real i * ((stop - start) / (of_int num - 1))) [0..<nat num]))"

definition np_clip :: "real \<Rightarrow> real \<Rightarrow> real \<Rightarrow> real" where
  "np_clip a a_min a_max = min (max a a_min) a_max"

text \<open>
  \<^verbatim>\<open>scipy.stats.mstats.mquantiles\<close> with its default plotting positions
  \<open>alphap = betap = 0.4\<close>, on an array with no masked entry. Its helper sorts the data
  and, when there are at least two of them, interpolates between two neighbours for every
  probability; the result is a masked array, a masked entry being \<open>None\<close> here. All
  entries are masked when there are no data.
\<close>

definition quantile_1D :: "real list \<Rightarrow> real \<Rightarrow> real" where
  "quantile_1D x p =
     (let n = real (length x);
          m = 4 / 10 + p * (1 - 4 / 10 - 4 / 10);
          aleph = n * p + m;
          k = \<lfloor>np_clip aleph 1 (n - 1)\<rfloor>;
          gamma = np_clip (aleph - of_int k) 0 1
      in (1 - gamma) * x ! nat (k - 1) + gamma * x ! nat k)"

definition mquantiles :: "real list \<Rightarrow> real list \<Rightarrow> real option list" where
  "mquantiles a prob =
     (let x = sort a;
          n = length x
      in if n = 0 then map (\<lambda>p. None) prob
         else if n = 1 then map (\<lambda>p. Some (x ! 0)) prob
         else map (\<lambda>p. Some (quantile_1D x p)) prob)"

text \<open>
  \<^verbatim>\<open>numpy.copy\<close> of a masked array is the plain array of its data. The data under a
  masked entry are uninitialised memory, read as 0 here: \<^verbatim>\<open>bin_evenly\<close> reaches them
  only with no value to digitise, and then at most one of them.
\<close>

definition ma_data :: "real option list \<Rightarrow> real list" where
  "ma_data a = map (\<lambda>e. case e of None \<Rightarrow> 0 | Some v \<Rightarrow> v) a"

text \<open>
  \<^verbatim>\<open>numpy.digitize\<close> with its default \<^verbatim>\<open>right=False\<close>: the bins must be monotonic
  (1 increasing or all equal, -1 decreasing, 0 neither), and the digit of a value is the
  point where a search of the increasing bins inserts it, to the right of the bins equal
  to it.
\<close>

definition monotonicity :: "real list \<Rightarrow> int" where
  "monotonicity bins = (if sorted bins then 1 else if sorted (rev bins) then - 1 else 0)"

definition searchsorted_right :: "real list \<Rightarrow> real \<Rightarrow> nat" where
  "searchsorted_right a v = length (takeWhile (\<lambda>b. b \<le> v) a)"

definition np_digitize :: "real list \<Rightarrow> real list \<Rightarrow> py_error + nat list" where
  "np_digitize x bins =
     (let mono = monotonicity bins
      in if mono = 0 then Inl NotMonotonic
         else if mono = - 1 then
           Inr (map (\<lambda>v. length bins - searchsorted_right (rev bins) v) x)
         else Inr (map (searchsorted_right bins) x))"

text \<open>
  The sum \<open>x + 1\<close> of a double and 1, rounded to the nearest double, ties to the even
  one. Under \<open>2 ^ 53\<close> in magnitude the sum is taken as exact, as everywhere else in this
  model. From \<open>2 ^ 53\<close> to \<open>2 ^ 54\<close> the doubles are the even integers, the sum lies
  halfway between \<open>x\<close> and \<open>x + 2\<close>, and the one that is a multiple of 4 is returned.
  From \<open>2 ^ 54\<close> on the doubles are at least 4 apart and the sum rounds back to \<open>x\<close>.
\<close>

definition fl_add_one :: "real \<Rightarrow> real" where
  "fl_add_one x =
     (if - (2 ^ 53) \<le> x \<and> x < 2 ^ 53 then x + 1
      else if \<bar>x\<bar> < 2 ^ 54 then (if even \<lfloor>x / 2\<rfloor> then x else x + 2)
      else x)"

text \<open>
  The function itself. The assignment to the last boundary raises \<^verbatim>\<open>IndexError\<close> on
  an array with no boundary.
\<close>

definition bin_evenly :: "real list \<Rightarrow> int \<Rightarrow> py_error + (real option list \<times> nat list)" where
  "bin_evenly values max_bins0 =
     (let max_bins = (if int (length values) < max_bins0 then int (length values) else max_bins0)
      in case np_linspace 0 1 (max_bins + 1) of
           Inl e \<Rightarrow> Inl e
         | Inr quantiles \<Rightarrow>
             let boundaries = mquantiles values quantiles;
                 digitize_boundaries = ma_data boundaries
             in if digitize_boundaries = [] then Inl IndexError
                else
                  let digitize_boundaries = digitize_boundaries
                        [length digitize_boundaries - 1 := fl_add_one (last digitize_boundaries)]
                  in case np_digitize values digitize_boundaries of
                       Inl e \<Rightarrow> Inl e
                     | Inr bin_digits \<Rightarrow> Inr (boundaries, bin_digits))"

text \<open>The number of bins as the specification words it: the least of the two numbers.\<close>

definition nb_bins :: "real list \<Rightarrow> int \<Rightarrow> nat" where
  "nb_bins values max_bins = min (nat max_bins) (length values)"

section \<open>The density estimation: \<^verbatim>\<open>pcigale/analysis_modules/pdf_analysis/utils.py\<close>\<close>

definition PDF_NB_POINTS :: int where
  "PDF_NB_POINTS = 1000"

text \<open>\<^verbatim>\<open>numpy.around\<close> rounds to the nearest integer, and a half to the even one.\<close>

definition np_around :: "real \<Rightarrow> int" where
  "np_around x =
     (let f = \<lfloor>x\<rfloor>;
          r = x - of_int f
      in if r < 1 / 2 then f
         else if 1 / 2 < r then f + 1
         else if even f then f else f + 1)"

text \<open>
  The exceptions that \<^verbatim>\<open>except (LinAlgError, ValueError)\<close> catches: the
  \<^verbatim>\<open>LinAlgError\<close> and every \<^verbatim>\<open>ValueError\<close>.
\<close>

fun caught :: "py_error \<Rightarrow> bool" where
  "caught LinAlgError = True"
| "caught ValueError = True"
| "caught LengthMismatch = True"
| "caught EmptySequence = True"
| "caught NegativeSamples = True"
| "caught NotMonotonic = True"
| "caught ZeroDivisionError = False"
| "caught ShapeMismatch = False"
| "caught IndexError = False"
| "caught OtherError = False"

text \<open>
  \<^verbatim>\<open>scipy.stats.gaussian_kde\<close> is not part of the repository. Its numerical part is the
  parameter \<open>fit\<close>, which returns the density at the points of the grid or raises. Before
  any computation scipy raises \<^verbatim>\<open>ValueError\<close> on a data set that has not more than
  one element.
\<close>

definition gaussian_kde :: "(real list \<Rightarrow> real list \<Rightarrow> py_error + real list)
    \<Rightarrow> real list \<Rightarrow> real list \<Rightarrow> py_error + real list" where
  "gaussian_kde fit dataset grid =
     (if length dataset \<le> 1 then Inl ValueError else fit dataset grid)"

text \<open>
  The loop of \<^verbatim>\<open>gen_pdf\<close> over the values, with their index. The arrays are masked
  arrays, a masked entry being \<open>None\<close>: \<^verbatim>\<open>tolist\<close> turns a masked value into
  \<^verbatim>\<open>None\<close>, and a masked probability is false as a condition. Indexing the
  probabilities raises \<^verbatim>\<open>IndexError\<close> past their end, and the product of a list by a
  negative number is the empty list.
\<close>

fun combine :: "int option list \<Rightarrow> nat \<Rightarrow> real option list \<Rightarrow> real list
    \<Rightarrow> py_error + real list" where
  "combine probabilities val_idx [] combined_values = Inr combined_values"
| "combine probabilities val_idx (None # vals) combined_values =
     combine probabilities (Suc val_idx) vals combined_values"
| "combine probabilities val_idx (Some val # vals) combined_values =
     (if length probabilities \<le> val_idx then Inl IndexError
      else case probabilities ! val_idx of
        None \<Rightarrow> combine probabilities (Suc val_idx) vals combined_values
      | Some w \<Rightarrow>
          if w \<noteq> 0 then
            combine probabilities (Suc val_idx) vals (combined_values @ replicate (nat w) val)
          else combine probabilities (Suc val_idx) vals combined_values)"

definition gen_pdf :: "(real list \<Rightarrow> real list \<Rightarrow> py_error + real list)
    \<Rightarrow> real option list \<Rightarrow> real option list \<Rightarrow> real list
    \<Rightarrow> py_error + real list option" where
  "gen_pdf fit values probabilities0 grid =
     (let probabilities = map (map_option (\<lambda>p. np_around (100 * p))) probabilities0
      in case combine probabilities 0 values [] of
           Inl e \<Rightarrow> Inl e
         | Inr combined_values \<Rightarrow>
             (case gaussian_kde fit combined_values grid of
                Inr result \<Rightarrow> Inr (Some result)
              | Inl e \<Rightarrow> if caught e then Inr None else Inl e))"

text \<open>
  \<^verbatim>\<open>save_pdf\<close> prints a message or writes a table for every variable: these are the
  events of a run, in order. The two-dimensional array of the model variables is held by
  columns, of plain floats; the column of an index past the last one raises
  \<^verbatim>\<open>IndexError\<close>, and the least and largest value of an empty column raise. The loop
  returns the events so far and the exception that ended it, if any.
\<close>

datatype pdf_event =
    Message string string
  | Table_written string string "real list" "real list"

fun np_amin :: "real list \<Rightarrow> py_error + real" where
  "np_amin [] = Inl EmptySequence"
| "np_amin (x # xs) = Inr (fold min xs x)"

fun np_amax :: "real list \<Rightarrow> py_error + real" where
  "np_amax [] = Inl EmptySequence"
| "np_amax (x # xs) = Inr (fold max xs x)"

text \<open>The grid of a column of values: evenly spaced from the least to the largest.\<close>

definition pdf_grid_of :: "real list \<Rightarrow> py_error + real list" where
  "pdf_grid_of vals =
     (case np_amin vals of
        Inl e \<Rightarrow> Inl e
      | Inr lo \<Rightarrow>
          (case np_amax vals of
             Inl e \<Rightarrow> Inl e
           | Inr hi \<Rightarrow> np_linspace lo hi PDF_NB_POINTS))"

fun save_pdf_loop :: "(real list \<Rightarrow> real list \<Rightarrow> py_error + real list) \<Rightarrow> string
    \<Rightarrow> real list list \<Rightarrow> real list \<Rightarrow> nat \<Rightarrow> string list \<Rightarrow> pdf_event list
    \<Rightarrow> pdf_event list \<times> py_error option" where
  "save_pdf_loop fit obsid model_variables likelihood var_index [] events = (events, None)"
| "save_pdf_loop fit obsid model_variables likelihood var_index (var_name # names) events =
     (if length model_variables \<le> var_index then (events, Some IndexError)
      else
        let vals = model_variables ! var_index
        in case pdf_grid_of vals of
             Inl e \<Rightarrow> (events, Some e)
           | Inr pdf_grid \<Rightarrow>
               (case gen_pdf fit (map Some vals) (map Some likelihood) pdf_grid of
                  Inl e \<Rightarrow> (events, Some e)
                | Inr None \<Rightarrow>
                    save_pdf_loop fit obsid model_variables likelihood (Suc var_index) names
                      (events @ [Message obsid var_name])
                | Inr (Some pdf_prob) \<Rightarrow>
                    save_pdf_loop fit obsid model_variables likelihood (Suc var_index) names
                      (events @ [Table_written obsid var_name pdf_grid pdf_prob])))"

definition save_pdf :: "(real list \<Rightarrow> real list \<Rightarrow> py_error + real list) \<Rightarrow> string
    \<Rightarrow> string list \<Rightarrow> real list list \<Rightarrow> real list \<Rightarrow> pdf_event list \<times> py_error option" where
  "save_pdf fit obsid analysed_variables model_variables likelihood =
     save_pdf_loop fit obsid model_variables likelihood 0 analysed_variables []"

text \<open>
  The pooled sample as the specification words it: every value that is not masked,
  repeated as many times as its probability times 100 rounds to, and left out when that
  is 0.
\<close>

definition pooled_sample :: "real option list \<Rightarrow> real option list \<Rightarrow> real list" where
  "pooled_sample values probabilities =
     concat (map2 (\<lambda>v p. case (v, p) of
                       (Some x, Some q) \<Rightarrow> replicate (nat (np_around (100 * q))) x
                     | _ \<Rightarrow> [])
               values probabilities)"

section \<open>Properties\<close>

subsection \<open>Finite inputs\<close>

lemma foldl_np_add_Fin: "foldl np_add (Fin a) (map Fin xs) = Fin (a + sum_list xs)"
  by (induction xs arbitrary: a) (simp_all add: add.assoc)

lemma py_sum_Fin: "py_sum (map Fin xs) = Fin (sum_list xs)"
  by (simp add: py_sum_def foldl_np_add_Fin)

lemma py_max2_Fin: "py_max2 (Fin a) (Fin b) = Fin (max a b)"
  by (simp add: py_max2_def max_def)

lemma py_min2_Fin: "py_min2 (Fin a) (Fin b) = Fin (min a b)"
  by (simp add: py_min2_def min_def)

lemma foldl_py_max2_Fin: "foldl py_max2 (Fin a) (map Fin xs) = Fin (fold max xs a)"
  by (induction xs arbitrary: a) (simp_all add: py_max2_Fin max.commute)

lemma foldl_py_min2_Fin: "foldl py_min2 (Fin a) (map Fin xs) = Fin (fold min xs a)"
  by (induction xs arbitrary: a) (simp_all add: py_min2_Fin min.commute)

lemma py_max_Fin: "xs \<noteq> [] \<Longrightarrow> py_max (map Fin xs) = Inr (Fin (Max (set xs)))"
  by (cases xs) (simp_all add: foldl_py_max2_Fin Max.set_eq_fold del: set_simps)

lemma py_min_Fin: "xs \<noteq> [] \<Longrightarrow> py_min (map Fin xs) = Inr (Fin (Min (set xs)))"
  by (cases xs) (simp_all add: foldl_py_min2_Fin Min.set_eq_fold del: set_simps)

lemma np_select_map: "np_select msk (map f xs) = map f (np_select msk xs)"
  unfolding np_select_def
  by (induction msk xs rule: list_induct2') simp_all

lemma np_select_pred:
  "np_select (map P ys) xs = map snd (filter (\<lambda>(y, x). P y) (zip ys xs))"
  unfolding np_select_def
  by (induction ys xs rule: list_induct2') simp_all

subsection \<open>The degenerate-case test\<close>

lemma select_flux_errors:
  "np_select (map (\<lambda>f. np_less TOLERANCE f) (map Fin ob)) (map Fin e) = map Fin (flux_errors ob e)"
  by (simp add: np_select_map np_select_pred flux_errors_def TOLERANCE_def comp_def)

text \<open>
  On finite inputs the test raises exactly when there is no observed flux at all, or when
  the largest one is not below the tolerance while none is over it.
\<close>

lemma degenerate_Fin:
  "degenerate (map Fin ob) (map Fin e) =
     (if ob = [] then Inl EmptySequence
      else if Max (set ob) < tol then Inr True
      else if flux_errors ob e = [] then Inl EmptySequence
      else Inr (Min (set (flux_errors ob e)) < tol))"
proof (cases "ob = []")
  case True
  then show ?thesis by (simp add: degenerate_def no_flux_over_tolerance_def)
next
  case False
  then have nf: "no_flux_over_tolerance (map Fin ob) = Inr (Max (set ob) < tol)"
    by (simp add: no_flux_over_tolerance_def py_max_Fin TOLERANCE_def)
  have eu: "error_under_tolerance (map Fin ob) (map Fin e) =
      (if flux_errors ob e = [] then Inl EmptySequence
       else Inr (Min (set (flux_errors ob e)) < tol))"
    unfolding error_under_tolerance_def select_flux_errors
    by (simp add: py_min_Fin TOLERANCE_def)
  show ?thesis using False by (simp add: degenerate_def nf eu)
qed

lemma flux_errors_mem:
  assumes "length ob = length e" "i < length ob" "tol < ob ! i"
  shows "e ! i \<in> set (flux_errors ob e)"
proof -
  have "(ob ! i, e ! i) \<in> set (zip ob e)"
    using assms by (metis in_set_zip fst_conv snd_conv)
  with assms(3) show ?thesis by (force simp: flux_errors_def)
qed

lemma degenerate_no_flux:
  "obs \<noteq> [] \<Longrightarrow> foldl py_max2 (hd obs) (tl obs) = Fin x \<Longrightarrow> x < tol
    \<Longrightarrow> degenerate obs errs = Inr True"
  by (cases obs) (simp_all add: degenerate_def no_flux_over_tolerance_def TOLERANCE_def)

text \<open>
  C2. On arrays of equal length, when the largest observed flux is below the tolerance, or
  the smallest error among the filters whose flux is over the tolerance is below the
  tolerance, \<^verbatim>\<open>compute_chi2\<close> returns exactly the triple (99, 1, 0). In particular it
  does so on the observed fluxes 0, 0, 0, whatever the model fluxes and the errors are.
\<close>

theorem compute_chi2_degenerate:
  assumes len: "length m = length ob" "length ob = length e"
    and deg: "(ob \<noteq> [] \<and> Max (set ob) < tol) \<or>
              (flux_errors ob e \<noteq> [] \<and> Min (set (flux_errors ob e)) < tol)"
    and len3: "length m3 = 3" "length e3 = 3"
  shows "compute_chi2 (map Fin m) (map Fin ob) (map Fin e) = Inr (Fin 99, Fin 1, Fin 0) \<and>
         compute_chi2 m3 [Fin 0, Fin 0, Fin 0] e3 = Inr (Fin 99, Fin 1, Fin 0)"
proof -
  have ne: "ob \<noteq> []"
    using deg by (auto simp: flux_errors_def)
  have "degenerate (map Fin ob) (map Fin e) = Inr True"
    using deg ne by (auto simp: degenerate_Fin)
  then have general: "compute_chi2 (map Fin m) (map Fin ob) (map Fin e) = Inr (Fin 99, Fin 1, Fin 0)"
    using len by (simp add: compute_chi2_def)
  have "degenerate [Fin 0, Fin 0, Fin 0] e3 = Inr True"
    by (rule degenerate_no_flux [where x = 0]) (simp_all add: py_max2_def)
  then have "compute_chi2 m3 [Fin 0, Fin 0, Fin 0] e3 = Inr (Fin 99, Fin 1, Fin 0)"
    using len3 by (simp add: compute_chi2_def)
  with general show ?thesis by simp
qed

theorem compute_chi2_degenerate_witness:
  "compute_chi2 (map Fin [5, 7]) (map Fin [3, 0]) (map Fin [0, 1]) = Inr (Fin 99, Fin 1, Fin 0) \<and>
   compute_chi2 [NaN, PInf, Fin 2] [Fin 0, Fin 0, Fin 0] [Fin 0, MInf, Fin 1]
     = Inr (Fin 99, Fin 1, Fin 0)"
proof -
  have fe: "flux_errors [3, 0] [0, 1] = [0]"
    by (simp add: flux_errors_def)
  show ?thesis
    by (rule compute_chi2_degenerate) (simp_all add: fe)
qed

subsection \<open>The fit over the kept filters\<close>

lemma kept_select:
  assumes "length m = length ob" "length ob = length e"
  shows "np_select (map (\<lambda>x. np_less TOLERANCE x) (map Fin e)) (map Fin m) = map Fin (map fst (kept m ob e))"
    and "np_select (map (\<lambda>x. np_less TOLERANCE x) (map Fin e)) (map Fin ob) = map Fin (map (fst \<circ> snd) (kept m ob e))"
    and "np_select (map (\<lambda>x. np_less TOLERANCE x) (map Fin e)) (map Fin e) = map Fin (map (snd \<circ> snd) (kept m ob e))"
  using assms
  by (induction m ob e rule: list_induct3)
     (simp_all add: np_select_def kept_def TOLERANCE_def)

lemma map2_same: "map2 f (map g k) (map h k) = map (\<lambda>t. f (g t) (h t)) k"
  by (induction k) simp_all

lemma py_sum_Fin_map: "py_sum (map (\<lambda>t. Fin (f t)) k) = Fin (sum_list (map f k))"
  using py_sum_Fin [of "map f k"] by (simp add: comp_def)

lemma fit_chi2_kept:
  assumes len: "length m = length ob" "length ob = length e"
    and k: "kept m ob e = k"
  shows "fit_chi2 (map Fin m) (map Fin ob) (map Fin e) =
     (if length k = 1 then
        Inr (Fin 0, np_div (Fin (\<Sum>(mf, obf, er)\<leftarrow>k. obf)) (Fin (\<Sum>(mf, obf, er)\<leftarrow>k. mf)), Fin 1)
      else if k = [] then Inl ZeroDivisionError
      else Inr (spec_reduced_chi2 k, spec_normalization k, spec_probability k))"
proof -
  define mk where "mk = map (\<lambda>t. Fin (fst t)) k"
  define ok where "ok = map (\<lambda>t. Fin (fst (snd t))) k"
  define ek where "ek = map (\<lambda>t. Fin (snd (snd t))) k"
  have s: "np_select (map (\<lambda>x. np_less TOLERANCE x) (map Fin e)) (map Fin m) = mk"
       "np_select (map (\<lambda>x. np_less TOLERANCE x) (map Fin e)) (map Fin ob) = ok"
       "np_select (map (\<lambda>x. np_less TOLERANCE x) (map Fin e)) (map Fin e) = ek"
    using kept_select [OF len] k by (simp_all add: comp_def mk_def ok_def ek_def)
  have lk: "length mk = length k" by (simp add: mk_def)
  have empty: "(mk = []) = (k = [])" "(ok = []) = (k = [])"
    by (simp_all add: mk_def ok_def)
  have dof: "(int (length k) - 1 = 0) = (length k = 1)" by auto
  have r: "real_of_int (int (length k) - 1) = real (length k) - 1" by simp
  have so: "py_sum ok = Fin (\<Sum>(mf, obf, er)\<leftarrow>k. obf)"
    unfolding ok_def by (simp add: py_sum_Fin_map case_prod_unfold)
  have sm: "py_sum mk = Fin (\<Sum>(mf, obf, er)\<leftarrow>k. mf)"
    unfolding mk_def by (simp add: py_sum_Fin_map case_prod_unfold)
  have num: "py_sum (map2 np_mul ok mk) = Fin (\<Sum>(mf, obf, er)\<leftarrow>k. obf * mf)"
    unfolding ok_def mk_def map2_same by (simp add: py_sum_Fin_map case_prod_unfold)
  have den: "py_sum (map2 np_mul mk mk) = Fin (\<Sum>(mf, obf, er)\<leftarrow>k. mf * mf)"
    unfolding mk_def map2_same by (simp add: py_sum_Fin_map case_prod_unfold)
  have one: "py_sum_div ok mk = Inr (np_div (Fin (\<Sum>(mf, obf, er)\<leftarrow>k. obf)) (Fin (\<Sum>(mf, obf, er)\<leftarrow>k. mf)))"
    if "length k = 1"
    using that unfolding py_sum_div_def so sm empty by auto
  have nf: "py_sum_div (map2 np_mul ok mk) (map2 np_mul mk mk) =
      (if k = [] then Inl ZeroDivisionError else Inr (spec_normalization k))"
    unfolding py_sum_div_def num den spec_normalization_def
    by (simp add: empty ok_def mk_def)
  have chi: "py_sum (map np_square (map2 np_div (map2 np_sub ok (map (np_mul (spec_normalization k)) mk)) ek))
      = spec_chi2 k"
    unfolding spec_chi2_def ok_def mk_def ek_def map_map comp_def map2_same
    by (simp only: case_prod_unfold)
  show ?thesis
  proof (cases "length k = 1")
    case True
    then show ?thesis
      unfolding fit_chi2_def Let_def s lk dof by (simp add: one)
  next
    case False
    show ?thesis
    proof (cases "k = []")
      case True
      then show ?thesis
        unfolding fit_chi2_def Let_def s lk dof nf by simp
    next
      case ne: False
      show ?thesis
        unfolding fit_chi2_def Let_def s lk dof nf r
        using False ne chi by (simp add: spec_reduced_chi2_def spec_probability_def)
    qed
  qed
qed

lemma not_degenerate:
  assumes len: "length ob = length e"
    and flux: "\<exists>f\<in>set ob. tol < f"
    and errs: "\<forall>x\<in>set (flux_errors ob e). tol \<le> x"
  shows "degenerate (map Fin ob) (map Fin e) = Inr False"
proof -
  from flux obtain f where f: "f \<in> set ob" "tol < f" by blast
  then obtain i where i: "i < length ob" "ob ! i = f" by (auto simp: in_set_conv_nth)
  have ne: "ob \<noteq> []" using f by auto
  have "f \<le> Max (set ob)" using f by simp
  then have mx: "\<not> Max (set ob) < tol" using f(2) by linarith
  have "e ! i \<in> set (flux_errors ob e)"
    using flux_errors_mem [OF len i(1)] i(2) f(2) by simp
  then have fe: "flux_errors ob e \<noteq> []" by auto
  then have "tol \<le> Min (set (flux_errors ob e))" using errs by simp
  then have "\<not> Min (set (flux_errors ob e)) < tol" by linarith
  then show ?thesis using ne mx fe by (simp add: degenerate_Fin)
qed

lemma kept_error_pos: "(mf, obf, er) \<in> set (kept m ob e) \<Longrightarrow> 0 < er"
proof -
  assume "(mf, obf, er) \<in> set (kept m ob e)"
  then have "tol < er" by (simp add: kept_def)
  moreover have "(0::real) < tol" by simp
  ultimately show ?thesis by linarith
qed

lemma spec_chi2_real:
  assumes den: "(\<Sum>(mf, obf, er)\<leftarrow>k. mf * mf) \<noteq> 0"
    and pos: "\<And>mf obf er. (mf, obf, er) \<in> set k \<Longrightarrow> 0 < er"
  shows "spec_normalization k = Fin (real_normalization k)"
    and "spec_chi2 k = Fin (real_chi2 k)"
proof -
  show n: "spec_normalization k = Fin (real_normalization k)"
    using den by (simp add: spec_normalization_def real_normalization_def)
  have "map (\<lambda>(mf, obf, er).
       np_square (np_div (np_sub (Fin obf) (np_mul (Fin (real_normalization k)) (Fin mf))) (Fin er))) k
     = map (\<lambda>t. Fin ((case t of (mf, obf, er) \<Rightarrow> ((obf - real_normalization k * mf) / er)\<^sup>2))) k"
  proof (rule map_cong [OF refl])
    fix t assume t: "t \<in> set k"
    obtain mf obf er where [simp]: "t = (mf, obf, er)" by (cases t)
    have "er \<noteq> 0" using pos [of mf obf er] t by auto
    then show "(case t of (mf, obf, er) \<Rightarrow>
       np_square (np_div (np_sub (Fin obf) (np_mul (Fin (real_normalization k)) (Fin mf))) (Fin er)))
      = Fin ((case t of (mf, obf, er) \<Rightarrow> ((obf - real_normalization k * mf) / er)\<^sup>2))"
      by (simp add: np_square_def np_sub_def power2_eq_square)
  qed
  then show "spec_chi2 k = Fin (real_chi2 k)"
    unfolding spec_chi2_def n real_chi2_def by (simp only: py_sum_Fin_map)
qed


text \<open>
  With an observed flux strictly over the tolerance and every error of a filter whose flux
  is over the tolerance at least the tolerance, on finite arrays of equal length: when two
  or more filters are kept (the degrees of freedom are positive), \<^verbatim>\<open>compute_chi2\<close>
  returns the least-squares scale, the reduced chi-square capped at 99 and the probability
  of the uncapped chi-square, all over the kept filters. Where the sum of the squared kept
  model fluxes is not zero these are the real numbers the formulas denote, the exponential
  being that of the floats.
\<close>

lemma compute_chi2_general:
  assumes len: "length m = length ob" "length ob = length e"
    and flux: "\<exists>f\<in>set ob. tol < f"
    and errs: "\<forall>x\<in>set (flux_errors ob e). tol \<le> x"
    and dof: "0 < int (length (kept m ob e)) - 1"
  shows "compute_chi2 (map Fin m) (map Fin ob) (map Fin e) =
           Inr (spec_reduced_chi2 (kept m ob e), spec_normalization (kept m ob e),
                spec_probability (kept m ob e)) \<and>
         ((\<Sum>(mf, obf, er)\<leftarrow>kept m ob e. mf * mf) \<noteq> 0 \<longrightarrow>
            spec_normalization (kept m ob e) = Fin (real_normalization (kept m ob e)) \<and>
            spec_reduced_chi2 (kept m ob e) =
              Fin (min (real_chi2 (kept m ob e) / (real (length (kept m ob e)) - 1)) 99) \<and>
            spec_probability (kept m ob e) = np_exp (Fin (- real_chi2 (kept m ob e) / 2)))"
proof -
  define k where "k = kept m ob e"
  have nd: "degenerate (map Fin ob) (map Fin e) = Inr False"
    using not_degenerate [OF len(2) flux errs] .
  have lk: "length k \<noteq> 1" "k \<noteq> []" using dof by (auto simp: k_def)
  have fit: "fit_chi2 (map Fin m) (map Fin ob) (map Fin e) =
      Inr (spec_reduced_chi2 k, spec_normalization k, spec_probability k)"
    using fit_chi2_kept [OF len k_def [symmetric]] lk by simp
  have code: "compute_chi2 (map Fin m) (map Fin ob) (map Fin e) =
      Inr (spec_reduced_chi2 k, spec_normalization k, spec_probability k)"
    using len nd fit by (simp add: compute_chi2_def)
  have reals: "spec_normalization k = Fin (real_normalization k) \<and>
      spec_reduced_chi2 k = Fin (min (real_chi2 k / (real (length k) - 1)) 99) \<and>
      spec_probability k = np_exp (Fin (- real_chi2 k / 2))"
    if den: "(\<Sum>(mf, obf, er)\<leftarrow>k. mf * mf) \<noteq> 0"
  proof -
    have pos: "\<And>mf obf er. (mf, obf, er) \<in> set k \<Longrightarrow> 0 < er"
      unfolding k_def by (rule kept_error_pos)
    have n: "spec_normalization k = Fin (real_normalization k)"
      and c: "spec_chi2 k = Fin (real_chi2 k)"
      using spec_chi2_real [OF den pos] by simp_all
    have d: "real (length k) - 1 \<noteq> 0" using dof by (simp add: k_def)
    have r: "spec_reduced_chi2 k = Fin (min (real_chi2 k / (real (length k) - 1)) 99)"
      using d by (simp add: spec_reduced_chi2_def c py_min2_Fin min.commute)
    have p: "spec_probability k = np_exp (Fin (- real_chi2 k / 2))"
      unfolding spec_probability_def c by simp
    show ?thesis using n r p by simp
  qed
  show ?thesis using code reals unfolding k_def by blast
qed

lemma compute_chi2_general_example:
  "compute_chi2 (map Fin [1, 1]) (map Fin [1, 3]) (map Fin [1, 1]) =
     Inr (Fin 2, Fin 2, Fin (exp (- 1)))"
proof -
  have k: "kept [1, 1] [1, 3] [1, 1] = [(1, 1, 1), (1, 3, 1)]"
    by (simp add: kept_def)
  have fe: "flux_errors [1, 3] [1, 1] = [1, 1]"
    by (simp add: flux_errors_def)
  have n: "real_normalization [(1, 1, 1), (1, 3, 1)] = 2"
    by (simp add: real_normalization_def)
  have c: "real_chi2 [(1, 1, 1), (1, 3, 1)] = 2"
    by (simp add: real_chi2_def n)
  show ?thesis
    using compute_chi2_general [of "[1, 1]" "[1, 3]" "[1, 1]"]
    by (simp add: k fe n c)
qed

text \<open>
  C1. The claim takes an observation as not degenerate when its largest observed flux is
  at least the tolerance and every error of a filter whose flux is over the tolerance is at
  least the tolerance. That covers the model fluxes 1, 1 with the observed fluxes 1e-12, 0
  and the errors 1, 1: the lengths are equal, the largest observed flux equals the
  tolerance, no flux is strictly over it, and two filters are kept. There
  \<^verbatim>\<open>compute_chi2\<close> returns no triple at all: \<^verbatim>\<open>min\<close> raises on the empty selection.
  The comment above the test sets an observation with no flux over the tolerance as not
  fitting at all. This is the defect of C10.
\<close>

theorem compute_chi2_general_raises:
  "length [1, 1 :: real] = length [tol, 0] \<and> length [tol, 0] = length [1, 1 :: real] \<and>
   tol \<le> Max (set [tol, 0]) \<and>
   flux_errors [tol, 0] [1, 1] = [] \<and>
   0 < int (length (kept [1, 1] [tol, 0] [1, 1])) - 1 \<and>
   compute_chi2 (map Fin [1, 1]) (map Fin [tol, 0]) (map Fin [1, 1]) = Inl EmptySequence"
proof -
  have fe: "flux_errors [tol, 0] [1, 1] = []"
    by (simp add: flux_errors_def)
  have k: "kept [1, 1] [tol, 0] [1, 1] = [(1, tol, 1), (1, 0, 1)]"
    by (simp add: kept_def)
  have d: "degenerate (map Fin [tol, 0]) (map Fin [1, 1]) = Inl EmptySequence"
    unfolding degenerate_Fin fe by simp
  have c: "compute_chi2 (map Fin [1, 1]) (map Fin [tol, 0]) (map Fin [1, 1]) = Inl EmptySequence"
    unfolding compute_chi2_def d by simp
  show ?thesis using fe k c by simp
qed

text \<open>
  An observation is not degenerate when the test evaluates to false. On finite arrays of
  equal length that is: an observed flux is over the tolerance, and no error of a filter
  whose flux is over the tolerance is below the tolerance.
\<close>

lemma flux_errors_set:
  "x \<in> set (flux_errors ob e) \<Longrightarrow> \<exists>f\<in>set ob. tol < f"
  by (auto simp add: flux_errors_def dest: set_zip_leftD)

lemma not_degenerate_iff:
  assumes len: "length ob = length e"
  shows "degenerate (map Fin ob) (map Fin e) = Inr False \<longleftrightarrow>
     (\<exists>f\<in>set ob. tol < f) \<and> (\<forall>x\<in>set (flux_errors ob e). tol \<le> x)"
proof
  assume nd: "degenerate (map Fin ob) (map Fin e) = Inr False"
  then have fe: "flux_errors ob e \<noteq> []" and mn: "\<not> Min (set (flux_errors ob e)) < tol"
    by (auto simp add: degenerate_Fin split: if_splits)
  from fe obtain x where "x \<in> set (flux_errors ob e)" by (cases "flux_errors ob e") auto
  then have flux: "\<exists>f\<in>set ob. tol < f" by (rule flux_errors_set)
  have "tol \<le> x" if "x \<in> set (flux_errors ob e)" for x
  proof -
    have "Min (set (flux_errors ob e)) \<le> x" using that by simp
    with mn show ?thesis by linarith
  qed
  with flux show "(\<exists>f\<in>set ob. tol < f) \<and> (\<forall>x\<in>set (flux_errors ob e). tol \<le> x)"
    by blast
next
  assume "(\<exists>f\<in>set ob. tol < f) \<and> (\<forall>x\<in>set (flux_errors ob e). tol \<le> x)"
  then show "degenerate (map Fin ob) (map Fin e) = Inr False"
    using not_degenerate [OF len] by blast
qed

text \<open>
  C3. On finite arrays of equal length that are not degenerate (an observed flux is over
  the tolerance, and no error of a filter whose flux is over the tolerance is below the
  tolerance), when exactly one filter is kept after dropping the filters whose error is at
  or under the tolerance, \<^verbatim>\<open>compute_chi2\<close> returns the reduced chi-square 0, the
  quotient of the kept observed flux by the kept model flux, and the probability 1. In
  particular the model flux 2, observed flux 4 and error 0.5 give (0, 2, 1).
\<close>

theorem compute_chi2_single_filter:
  assumes len: "length m = length ob" "length ob = length e"
    and flux: "\<exists>f\<in>set ob. tol < f"
    and errs: "\<forall>x\<in>set (flux_errors ob e). tol \<le> x"
    and one: "length (kept m ob e) = 1"
  shows "compute_chi2 (map Fin m) (map Fin ob) (map Fin e) =
           Inr (Fin 0,
                np_div (Fin (\<Sum>(mf, obf, er)\<leftarrow>kept m ob e. obf))
                       (Fin (\<Sum>(mf, obf, er)\<leftarrow>kept m ob e. mf)),
                Fin 1) \<and>
         compute_chi2 [Fin 2] [Fin 4] [Fin (1 / 2)] = Inr (Fin 0, Fin 2, Fin 1)"
proof -
  have nd: "degenerate (map Fin ob) (map Fin e) = Inr False"
    using not_degenerate [OF len(2) flux errs] .
  have fit: "fit_chi2 (map Fin m) (map Fin ob) (map Fin e) =
      Inr (Fin 0,
           np_div (Fin (\<Sum>(mf, obf, er)\<leftarrow>kept m ob e. obf))
                  (Fin (\<Sum>(mf, obf, er)\<leftarrow>kept m ob e. mf)),
           Fin 1)"
    using fit_chi2_kept [OF len refl] one by simp
  have general: "compute_chi2 (map Fin m) (map Fin ob) (map Fin e) =
      Inr (Fin 0,
           np_div (Fin (\<Sum>(mf, obf, er)\<leftarrow>kept m ob e. obf))
                  (Fin (\<Sum>(mf, obf, er)\<leftarrow>kept m ob e. mf)),
           Fin 1)"
    using len nd fit by (simp add: compute_chi2_def)
  have k: "kept [2] [4] [1 / 2] = [(2, 4, 1 / 2)]"
    by (simp add: kept_def)
  have fe: "flux_errors [4] [1 / 2] = [1 / 2]"
    by (simp add: flux_errors_def)
  have nd1: "degenerate (map Fin [4]) (map Fin [1 / 2]) = Inr False"
    by (rule not_degenerate) (simp_all add: fe)
  have fit1: "fit_chi2 (map Fin [2]) (map Fin [4]) (map Fin [1 / 2]) = Inr (Fin 0, Fin 2, Fin 1)"
    using fit_chi2_kept [of "[2]" "[4]" "[1 / 2]", OF _ _ k] by simp
  have "compute_chi2 (map Fin [2]) (map Fin [4]) (map Fin [1 / 2]) = Inr (Fin 0, Fin 2, Fin 1)"
    using nd1 fit1 by (simp add: compute_chi2_def)
  then have "compute_chi2 [Fin 2] [Fin 4] [Fin (1 / 2)] = Inr (Fin 0, Fin 2, Fin 1)"
    by simp
  with general show ?thesis by simp
qed

theorem compute_chi2_single_filter_witness:
  "compute_chi2 (map Fin [3, 5]) (map Fin [6, 0]) (map Fin [1, 0]) = Inr (Fin 0, Fin 2, Fin 1)"
proof -
  have k: "kept [3, 5] [6, 0] [1, 0] = [(3, 6, 1)]"
    by (simp add: kept_def)
  have fe: "flux_errors [6, 0] [1, 0] = [1]"
    by (simp add: flux_errors_def)
  show ?thesis
    using compute_chi2_single_filter [of "[3, 5]" "[6, 0]" "[1, 0]"]
    by (simp add: k fe)
qed


lemma flux_errors_nonempty:
  assumes len: "length ob = length e" and flux: "\<exists>f\<in>set ob. tol < f"
  shows "flux_errors ob e \<noteq> []"
proof -
  from flux obtain i where i: "i < length ob" "tol < ob ! i"
    by (auto simp: in_set_conv_nth)
  have "e ! i \<in> set (flux_errors ob e)"
    using flux_errors_mem [OF len i] .
  then show ?thesis by auto
qed






text \<open>
  C10. The degenerate-case test can fail on non-empty arrays of equal length with an
  observed flux at the tolerance: the largest observed flux is then not below the
  tolerance, no flux is strictly over it, and \<^verbatim>\<open>min\<close> raises on the empty selection.
  The comment above the test sets such an observation, with no flux over the tolerance,
  as not fitting at all. A second exception that is not the length mismatch: when the only
  error equals the tolerance, no filter is kept and the scale is the quotient of two
  Python integers 0.
\<close>

theorem compute_chi2_raises_at_tolerance:
  "compute_chi2 [Fin 3] [TOLERANCE] [Fin 1] = Inl EmptySequence \<and>
   compute_chi2 [Fin 3] [Fin 1] [TOLERANCE] = Inl ZeroDivisionError"
proof -
  have d1: "degenerate [TOLERANCE] [Fin 1] = Inl EmptySequence"
    by (simp add: degenerate_def no_flux_over_tolerance_def error_under_tolerance_def
        np_select_def TOLERANCE_def)
  have d2: "degenerate [Fin 1] [TOLERANCE] = Inr False"
    by (simp add: degenerate_def no_flux_over_tolerance_def error_under_tolerance_def
        np_select_def TOLERANCE_def)
  have f2: "fit_chi2 [Fin 3] [Fin 1] [TOLERANCE] = Inl ZeroDivisionError"
    by (simp add: fit_chi2_def np_select_def TOLERANCE_def py_sum_div_def)
  show ?thesis
    unfolding compute_chi2_def d1 d2 f2 by simp
qed

subsection \<open>The error adjustment\<close>

lemma np_put_select:
  "np_put (map P xs) (map f (np_select (map P xs) xs)) xs = map (\<lambda>x. if P x then f x else x) xs"
  by (induction xs) (simp_all add: np_select_def)

lemma map2_adjusted:
  "length E = length F \<Longrightarrow>
   map np_sqrt (map2 np_add (map np_square (map (rescaled d) E))
      (map np_square (map (\<lambda>f. np_mul f sd) F))) = map2 (adjusted d sd) E F"
  by (induction E F rule: list_induct2) (simp_all add: adjusted_def)

lemma adjust_errors_store:
  assumes valid: "flux < lim s"
    and len: "length (arrays s flux) = length (arrays s error0)"
  shows "adjust_errors s flux error0 d sd =
     Inr (s\<lparr>arrays := (arrays s)
               (lim s := map (rescaled d) (arrays s error0),
                Suc (lim s) := map2 (adjusted d sd) (arrays s error0) (arrays s flux)),
             lim := Suc (Suc (lim s))\<rparr>, Suc (lim s))"
proof -
  define E0 where "E0 = arrays s error0"
  define F0 where "F0 = arrays s flux"
  define E1 where "E1 = np_put (map (\<lambda>x. np_less x TOLERANCE) E0)
      (map (np_mul d) (np_select (map (\<lambda>x. np_less x TOLERANCE) E0) E0)) E0"
  define R where "R = map np_sqrt (map2 np_add (map np_square E1)
      (map np_square (map (\<lambda>f. np_mul f sd) F0)))"
  have len': "length F0 = length E0" by (simp add: E0_def F0_def len)
  have ne: "flux \<noteq> lim s" using valid by auto
  have code: "adjust_errors s flux error0 d sd =
     Inr (s\<lparr>arrays := (arrays s)(lim s := E1, Suc (lim s) := R),
             lim := Suc (Suc (lim s))\<rparr>, Suc (lim s))"
    unfolding adjust_errors_def np_copy_def alloc_def
    using len ne
    by (simp add: Let_def E0_def [symmetric] F0_def [symmetric] E1_def [symmetric]
        R_def [symmetric] del: map_map)
  have e1: "E1 = map (rescaled d) E0"
    unfolding E1_def np_put_select by (simp add: rescaled_def)
  have r: "R = map2 (adjusted d sd) E0 F0"
    unfolding R_def e1 using len' [symmetric] by (rule map2_adjusted)
  show ?thesis unfolding code e1 r E0_def F0_def ..
qed

lemma adjusted_Fin:
  "adjusted (Fin d) (Fin sd) (Fin e) (Fin f) =
     Fin (sqrt ((if e < tol then d * e else e)\<^sup>2 + (f * sd)\<^sup>2))"
proof -
  have nn: "\<not> (x * x + y * y < 0)" for x y :: real
    by (simp add: not_less)
  show ?thesis
    by (simp add: adjusted_def rescaled_def TOLERANCE_def np_square_def power2_eq_square nn)
qed

text \<open>
  C5. \<^verbatim>\<open>adjust_errors\<close> raises the length-mismatch error whenever the flux and error
  arrays differ in length. Otherwise it returns a new array of the same length holding,
  at every index, the adjustment of the raw error \<open>e\<close> and the flux \<open>f\<close> at that index: an
  error below the tolerance is first replaced by 0.1 times that same error, then the error
  is replaced by \<open>sqrt (e\<^sup>2 + (f \<sqdot> 0.1)\<^sup>2)\<close>; and every array that existed before the
  call, the two arguments among them, holds what it held. The last conjunct is the
  adjustment of a finite error and a finite flux over the reals.
\<close>

theorem adjust_errors_correct:
  assumes valid: "flux < lim s" "error0 < lim s"
  shows "(length (arrays s flux) \<noteq> length (arrays s error0) \<longrightarrow>
            adjust_errors_default s flux error0 = Inl LengthMismatch) \<and>
         (length (arrays s flux) = length (arrays s error0) \<longrightarrow>
            (\<exists>s' r. adjust_errors_default s flux error0 = Inr (s', r) \<and>
               arrays s' r =
                 map2 (adjusted (Fin (1 / 10)) (Fin (1 / 10))) (arrays s error0) (arrays s flux) \<and>
               length (arrays s' r) = length (arrays s flux) \<and>
               (\<forall>a<lim s. arrays s' a = arrays s a))) \<and>
         (\<forall>e f. adjusted (Fin (1 / 10)) (Fin (1 / 10)) (Fin e) (Fin f) =
            Fin (sqrt ((if e < tol then 1 / 10 * e else e)\<^sup>2 + (f * (1 / 10))\<^sup>2)))"
proof (intro conjI impI allI)
  assume "length (arrays s flux) \<noteq> length (arrays s error0)"
  then show "adjust_errors_default s flux error0 = Inl LengthMismatch"
    by (simp add: adjust_errors_default_def adjust_errors_def)
next
  assume len: "length (arrays s flux) = length (arrays s error0)"
  show "\<exists>s' r. adjust_errors_default s flux error0 = Inr (s', r) \<and>
      arrays s' r =
        map2 (adjusted (Fin (1 / 10)) (Fin (1 / 10))) (arrays s error0) (arrays s flux) \<and>
      length (arrays s' r) = length (arrays s flux) \<and>
      (\<forall>a<lim s. arrays s' a = arrays s a)"
    unfolding adjust_errors_default_def adjust_errors_store [OF valid(1) len]
    using len by (intro exI conjI) (rule refl, simp_all)
next
  fix e f
  show "adjusted (Fin (1 / 10)) (Fin (1 / 10)) (Fin e) (Fin f) =
      Fin (sqrt ((if e < tol then 1 / 10 * e else e)\<^sup>2 + (f * (1 / 10))\<^sup>2))"
    by (rule adjusted_Fin)
qed

theorem adjust_errors_correct_witness:
  "\<exists>s' r. adjust_errors_default
       \<lparr>arrays = (\<lambda>a. [])(0 := [Fin 30, Fin 40], Suc 0 := [Fin 4, Fin 0]), lim = 2\<rparr> 0 (Suc 0) =
         Inr (s', r) \<and>
       arrays s' r = [Fin 5, Fin 4] \<and>
       arrays s' 0 = [Fin 30, Fin 40] \<and> arrays s' (Suc 0) = [Fin 4, Fin 0]"
proof -
  have five: "sqrt 25 = 5" using real_sqrt_abs [of 5] by simp
  have four: "sqrt 16 = 4" using real_sqrt_abs [of 4] by simp
  show ?thesis
    using adjust_errors_correct
      [of 0 "\<lparr>arrays = (\<lambda>a. [])(0 := [Fin 30, Fin 40], Suc 0 := [Fin 4, Fin 0]), lim = 2\<rparr>" "Suc 0"]
    by (auto simp add: five four power2_eq_square)
qed

subsection \<open>The weighted mean and standard deviation\<close>

lemma np_sum_Fin: "np_sum (map Fin xs) = Fin (sum_list xs)"
  by (simp add: np_sum_def foldl_np_add_Fin)

lemma np_sum_Fin_map: "np_sum (map (\<lambda>t. Fin (f t)) k) = Fin (sum_list (map f k))"
  using np_sum_Fin [of "map f k"] by (simp add: comp_def)

lemma sum_list_zip_swap:
  "length xs = length ys \<Longrightarrow>
   (\<Sum>(x, y)\<leftarrow>zip xs ys. f x y) = (\<Sum>(y, x)\<leftarrow>zip ys xs. f x y)"
  by (induction xs ys rule: list_induct2) simp_all

lemma np_average_Fin:
  assumes len: "length vs = length ws" and nz: "sum_list ws \<noteq> 0"
  shows "np_average (map Fin vs) (map Fin ws) = Inr (Fin (weighted_mean vs ws))"
proof -
  have prod: "map2 np_mul (map Fin vs) (map Fin ws) = map (\<lambda>(v, w). Fin (w * v)) (zip vs ws)"
    by (simp add: zip_map_map case_prod_unfold mult.commute)
  have "np_sum (map2 np_mul (map Fin vs) (map Fin ws)) = Fin (\<Sum>(v, w)\<leftarrow>zip vs ws. w * v)"
    unfolding prod using np_sum_Fin_map [of "\<lambda>(v, w). w * v" "zip vs ws"]
    by (simp add: case_prod_unfold)
  also have "(\<Sum>(v, w)\<leftarrow>zip vs ws. w * v) = (\<Sum>(w, v)\<leftarrow>zip ws vs. w * v)"
    using len by (rule sum_list_zip_swap)
  finally have num: "np_sum (map2 np_mul (map Fin vs) (map Fin ws)) =
      Fin (\<Sum>(w, v)\<leftarrow>zip ws vs. w * v)" .
  show ?thesis
    using len nz by (simp add: np_average_def np_sum_Fin num weighted_mean_def del: map_map)
qed

lemma w_mean_sigma_Fin:
  assumes len: "length vs = length ws" and nz: "sum_list ws \<noteq> 0"
  shows "w_mean_sigma (map Fin vs) (map Fin ws) =
     Inr (Fin (weighted_mean vs ws),
          np_sqrt (Fin ((\<Sum>(w, v)\<leftarrow>zip ws vs. w * (v - weighted_mean vs ws)\<^sup>2) / sum_list ws)))"
proof -
  define mu where "mu = weighted_mean vs ws"
  have dev: "map (\<lambda>v. np_square (np_sub v (Fin mu))) (map Fin vs) = map (\<lambda>v. Fin ((v - mu)\<^sup>2)) vs"
    by (simp add: np_square_def np_sub_def power2_eq_square)
  have prod: "map2 np_mul (map Fin ws) (map (\<lambda>v. Fin ((v - mu)\<^sup>2)) vs) =
      map (\<lambda>(w, v). Fin (w * (v - mu)\<^sup>2)) (zip ws vs)"
    by (simp add: zip_map_map case_prod_unfold)
  have dot: "np_dot (map Fin ws) (map (\<lambda>v. np_square (np_sub v (Fin mu))) (map Fin vs)) =
      Fin (\<Sum>(w, v)\<leftarrow>zip ws vs. w * (v - mu)\<^sup>2)"
    unfolding np_dot_def dev prod
    using np_sum_Fin_map [of "\<lambda>(w, v). w * (v - mu)\<^sup>2" "zip ws vs"]
    by (simp add: case_prod_unfold)
  show ?thesis
    unfolding w_mean_sigma_def np_average_Fin [OF len nz] mu_def [symmetric]
    using nz by (simp add: dot np_sum_Fin del: map_map)
qed

text \<open>
  C6. For finite values and as many finite weights, all non-negative and of positive sum,
  \<^verbatim>\<open>w_mean_sigma\<close> returns the weighted mean \<open>\<Sigma>(w\<sqdot>v) / \<Sigma>w\<close> and the weighted standard
  deviation \<open>sqrt (\<Sigma>(w\<sqdot>(v - mean)\<^sup>2) / \<Sigma>w)\<close>. In particular the values 1, 2, 3 with the
  weights 1, 1, 1 give the mean 2 and the deviation \<open>sqrt (2 / 3)\<close>.
\<close>

theorem w_mean_sigma_correct:
  assumes len: "length vs = length ws"
    and nonneg: "\<forall>w\<in>set ws. 0 \<le> w"
    and pos: "0 < sum_list ws"
  shows "w_mean_sigma (map Fin vs) (map Fin ws) =
           Inr (Fin (weighted_mean vs ws), Fin (weighted_std vs ws)) \<and>
         w_mean_sigma [Fin 1, Fin 2, Fin 3] [Fin 1, Fin 1, Fin 1] =
           Inr (Fin 2, Fin (sqrt (2 / 3)))"
proof -
  have nz: "sum_list ws \<noteq> 0" using pos by simp
  have "0 \<le> (\<Sum>(w, v)\<leftarrow>zip ws vs. w * (v - weighted_mean vs ws)\<^sup>2)"
    using nonneg by (intro sum_list_nonneg) (auto dest: set_zip_leftD)
  then have var: "\<not> (\<Sum>(w, v)\<leftarrow>zip ws vs. w * (v - weighted_mean vs ws)\<^sup>2) / sum_list ws < 0"
    using pos by (simp add: not_less)
  have general: "w_mean_sigma (map Fin vs) (map Fin ws) =
      Inr (Fin (weighted_mean vs ws), Fin (weighted_std vs ws))"
    unfolding w_mean_sigma_Fin [OF len nz] using var by (simp add: weighted_std_def)
  have m: "weighted_mean [1, 2, 3] [1, 1, 1] = 2"
    by (simp add: weighted_mean_def)
  have "w_mean_sigma (map Fin [1, 2, 3]) (map Fin [1, 1, 1]) =
      Inr (Fin 2, np_sqrt (Fin (2 / 3)))"
    using w_mean_sigma_Fin [of "[1, 2, 3]" "[1, 1, 1]"] by (simp add: m)
  then have "w_mean_sigma [Fin 1, Fin 2, Fin 3] [Fin 1, Fin 1, Fin 1] =
      Inr (Fin 2, Fin (sqrt (2 / 3)))"
    by simp
  with general show ?thesis by simp
qed

theorem w_mean_sigma_correct_witness:
  "w_mean_sigma (map Fin [1, 3]) (map Fin [1, 3]) = Inr (Fin (5 / 2), Fin (sqrt (3 / 4)))"
proof -
  have m: "weighted_mean [1, 3] [1, 3] = 5 / 2"
    by (simp add: weighted_mean_def)
  have s: "weighted_std [1, 3] [1, 3] = sqrt (3 / 4)"
    by (simp add: weighted_std_def m power2_eq_square)
  show ?thesis
    using w_mean_sigma_correct [of "[1, 3]" "[1, 3]"] by (simp add: m s)
qed

text \<open>
  C7. For finite values and finite weights whose sum is zero, \<^verbatim>\<open>w_mean_sigma\<close> raises:
  the \<^verbatim>\<open>ZeroDivisionError\<close> of \<^verbatim>\<open>average\<close> when the two arrays have the same
  length, and its shape error otherwise. No result is returned.
\<close>

theorem w_mean_sigma_zero_weight:
  assumes zero: "sum_list ws = 0"
  shows "w_mean_sigma (map Fin vs) (map Fin ws) =
     Inl (if length vs = length ws then ZeroDivisionError else ShapeMismatch)"
  using zero by (simp add: w_mean_sigma_def np_average_def np_sum_Fin del: map_map)

theorem w_mean_sigma_zero_weight_witness:
  "w_mean_sigma (map Fin [1, 2]) (map Fin [0, 0]) = Inl ZeroDivisionError"
  using w_mean_sigma_zero_weight [of "[0, 0]" "[1, 2]"] by simp

subsection \<open>The bins\<close>

text \<open>
  The interpolation of \<^verbatim>\<open>mquantiles\<close> lies between the two neighbours it combines and
  grows with its weight.
\<close>

lemma interp_between:
  fixes a b g :: real
  assumes "a \<le> b" "0 \<le> g" "g \<le> 1"
  shows "a \<le> (1 - g) * a + g * b" and "(1 - g) * a + g * b \<le> b"
proof -
  have e1: "(1 - g) * a + g * b = a + g * (b - a)" by (simp add: algebra_simps)
  have e2: "(1 - g) * a + g * b = b - (1 - g) * (b - a)" by (simp add: algebra_simps)
  have "0 \<le> g * (b - a)" using assms by simp
  then show "a \<le> (1 - g) * a + g * b" unfolding e1 by simp
  have "0 \<le> (1 - g) * (b - a)" using assms by simp
  then show "(1 - g) * a + g * b \<le> b" unfolding e2 by simp
qed

lemma interp_mono:
  fixes a b g h :: real
  assumes "a \<le> b" "g \<le> h"
  shows "(1 - g) * a + g * b \<le> (1 - h) * a + h * b"
proof -
  have "(1 - h) * a + h * b - ((1 - g) * a + g * b) = (h - g) * (b - a)"
    by (simp add: algebra_simps)
  moreover have "0 \<le> (h - g) * (b - a)" using assms by simp
  ultimately show ?thesis by linarith
qed

lemma np_clip_range: "lo \<le> hi \<Longrightarrow> lo \<le> np_clip a lo hi \<and> np_clip a lo hi \<le> hi"
  by (simp add: np_clip_def)

lemma np_clip_mono: "a \<le> b \<Longrightarrow> np_clip a lo hi \<le> np_clip b lo hi"
  by (auto simp add: np_clip_def min_def max_def)

text \<open>The index and the weight of the interpolation, for a position \<open>aleph\<close>.\<close>

lemma quantile_index:
  fixes n :: nat and aleph :: real
  assumes n: "2 \<le> n" and k: "k = \<lfloor>np_clip aleph 1 (real n - 1)\<rfloor>"
  shows "1 \<le> k" and "k \<le> int n - 1" and "nat (k - 1) < n" and "nat k < n"
proof -
  have r: "1 \<le> np_clip aleph 1 (real n - 1)" "np_clip aleph 1 (real n - 1) \<le> real n - 1"
    using np_clip_range [of 1 "real n - 1" aleph] n by simp_all
  show k1: "1 \<le> k" unfolding k using r(1) by linarith
  have "k \<le> \<lfloor>real n - 1\<rfloor>" unfolding k using r(2) by (rule floor_mono)
  also have "\<lfloor>real n - 1\<rfloor> = int n - 1" by linarith
  finally show k2: "k \<le> int n - 1" .
  show "nat (k - 1) < n" "nat k < n"
    using k1 k2 by linarith+
qed

lemma quantile_1D_between:
  assumes srt: "sorted x" and n: "2 \<le> length x"
  shows "x ! 0 \<le> quantile_1D x p" and "quantile_1D x p \<le> last x"
proof -
  define aleph where "aleph = real (length x) * p + (4 / 10 + p * (1 - 4 / 10 - 4 / 10))"
  define k where "k = \<lfloor>np_clip aleph 1 (real (length x) - 1)\<rfloor>"
  define g where "g = np_clip (aleph - of_int k) 0 1"
  have q: "quantile_1D x p = (1 - g) * x ! nat (k - 1) + g * x ! nat k"
    by (simp add: quantile_1D_def Let_def aleph_def k_def g_def)
  note idx = quantile_index [OF n k_def]
  have g01: "0 \<le> g" "g \<le> 1" using np_clip_range [of 0 1] by (simp_all add: g_def)
  have ab: "x ! nat (k - 1) \<le> x ! nat k"
    using srt idx by (intro sorted_nth_mono) linarith+
  have lo: "x ! 0 \<le> x ! nat (k - 1)"
    using srt idx by (intro sorted_nth_mono) linarith+
  have hi: "x ! nat k \<le> x ! (length x - 1)"
    using srt idx by (intro sorted_nth_mono) linarith+
  have ne: "x \<noteq> []" using n by auto
  show "x ! 0 \<le> quantile_1D x p"
    unfolding q using interp_between(1) [OF ab g01] lo by linarith
  show "quantile_1D x p \<le> last x"
    unfolding q last_conv_nth [OF ne] using interp_between(2) [OF ab g01] hi by linarith
qed

lemma quantile_1D_mono:
  assumes srt: "sorted x" and n: "2 \<le> length x" and pq: "p \<le> q"
  shows "quantile_1D x p \<le> quantile_1D x q"
proof -
  define al where "al = (\<lambda>p. real (length x) * p + (4 / 10 + p * (1 - 4 / 10 - 4 / 10)))"
  define k where "k = (\<lambda>p. \<lfloor>np_clip (al p) 1 (real (length x) - 1)\<rfloor>)"
  define g where "g = (\<lambda>p. np_clip (al p - of_int (k p)) 0 1)"
  have q: "quantile_1D x r = (1 - g r) * x ! nat (k r - 1) + g r * x ! nat (k r)" for r
    by (simp add: quantile_1D_def Let_def al_def k_def g_def)
  have idx: "1 \<le> k r" "k r \<le> int (length x) - 1" "nat (k r - 1) < length x"
    "nat (k r) < length x" for r
    using quantile_index [OF n, of "k r" "al r"] by (simp_all add: k_def)
  have g01: "0 \<le> g r" "g r \<le> 1" for r
    using np_clip_range [of 0 1] by (simp_all add: g_def)
  have ab: "x ! nat (k r - 1) \<le> x ! nat (k r)" for r
    using srt idx [of r] by (intro sorted_nth_mono) linarith+
  have al_mono: "al p \<le> al q"
    unfolding al_def by (intro add_mono mult_left_mono mult_right_mono order_refl pq) simp_all
  have k_mono: "k p \<le> k q"
    unfolding k_def by (intro floor_mono np_clip_mono al_mono)
  show ?thesis
  proof (cases "k p = k q")
    case True
    have "g p \<le> g q"
      unfolding g_def True using al_mono by (intro np_clip_mono) simp
    then show ?thesis
      unfolding q True using ab [of q] by (intro interp_mono)
  next
    case False
    with k_mono have lt: "k p < k q" by simp
    have "quantile_1D x p \<le> x ! nat (k p)"
      unfolding q using interp_between(2) [OF ab g01] .
    also have "x ! nat (k p) \<le> x ! nat (k q - 1)"
      using srt idx [of p] idx [of q] lt by (intro sorted_nth_mono) linarith+
    also have "x ! nat (k q - 1) \<le> quantile_1D x q"
      unfolding q using interp_between(1) [OF ab g01] .
    finally show ?thesis .
  qed
qed

lemma quantile_1D_unfold:
  assumes "aleph = real (length x) * p + (4 / 10 + p * (1 - 4 / 10 - 4 / 10))"
    and "k = \<lfloor>np_clip aleph 1 (real (length x) - 1)\<rfloor>"
    and "g = np_clip (aleph - of_int k) 0 1"
  shows "quantile_1D x p = (1 - g) * x ! nat (k - 1) + g * x ! nat k"
  using assms by (simp add: quantile_1D_def Let_def)

lemma quantile_1D_first:
  assumes n: "2 \<le> length x"
  shows "quantile_1D x 0 = x ! 0"
proof -
  have k: "(1 :: int) = \<lfloor>np_clip (4 / 10) 1 (real (length x) - 1)\<rfloor>"
    using n by (simp add: np_clip_def)
  have g: "(0 :: real) = np_clip (4 / 10 - of_int 1) 0 1"
    by (simp add: np_clip_def)
  show ?thesis
    using quantile_1D_unfold [of "4 / 10" x 0 1 0, OF _ k g] by simp
qed

lemma quantile_1D_last:
  assumes n: "2 \<le> length x"
  shows "quantile_1D x 1 = last x"
proof -
  have ne: "x \<noteq> []" using n by auto
  have c: "np_clip (real (length x) + 6 / 10) 1 (real (length x) - 1) = real (length x) - 1"
    using n by (simp add: np_clip_def)
  have f: "\<lfloor>real (length x) - 1\<rfloor> = int (length x) - 1" by linarith
  have k: "int (length x) - 1 = \<lfloor>np_clip (real (length x) + 6 / 10) 1 (real (length x) - 1)\<rfloor>"
    unfolding c f ..
  have "real (length x) + 6 / 10 - of_int (int (length x) - 1) = 16 / 10"
    by simp
  then have g: "(1 :: real) = np_clip (real (length x) + 6 / 10 - of_int (int (length x) - 1)) 0 1"
    by (simp add: np_clip_def)
  have nk: "nat (int (length x) - 1) = length x - 1" by simp
  show ?thesis
    using quantile_1D_unfold [of "real (length x) + 6 / 10" x 1 "int (length x) - 1" 1, OF _ k g]
    unfolding nk last_conv_nth [OF ne] by simp
qed


lemma np_linspace_unit:
  assumes "0 < bins"
  shows "np_linspace 0 1 (int bins + 1) = Inr (map (\<lambda>j. real j / real bins) [0..<bins + 1])"
proof -
  have n: "nat (int bins + 1) = bins + 1" by simp
  show ?thesis
    unfolding np_linspace_def n using assms by simp
qed

lemma sorted_first_Min:
  fixes xs :: "real list"
  assumes "sorted xs" "xs \<noteq> []"
  shows "xs ! 0 = Min (set xs)"
proof -
  obtain y ys where xs: "xs = y # ys" using assms(2) by (cases xs) auto
  have "Min (set xs) = y"
    using assms(1) unfolding xs by (intro Min_eqI) auto
  then show ?thesis by (simp add: xs)
qed

lemma sorted_last_Max:
  fixes xs :: "real list"
  assumes "sorted xs" "xs \<noteq> []"
  shows "last xs = Max (set xs)"
proof -
  obtain y ys where xs: "xs = ys @ [y]" using assms(2) by (cases xs rule: rev_cases) auto
  have "Max (set xs) = y"
    using assms(1) unfolding xs by (intro Max_eqI) (auto simp add: sorted_append)
  then show ?thesis by (simp add: xs)
qed

lemma sort_first_last:
  fixes a :: "real list"
  assumes ne: "a \<noteq> []"
  shows "sort a ! 0 = Min (set a)" and "last (sort a) = Max (set a)"
proof -
  have ne': "sort a \<noteq> []" using ne by (metis length_0_conv length_sort)
  have s: "sorted (sort a)" by simp
  show "sort a ! 0 = Min (set a)"
    using sorted_first_Min [OF s ne'] by simp
  show "last (sort a) = Max (set a)"
    using sorted_last_Max [OF s ne'] by simp
qed

lemma quantile_boundaries:
  assumes ne: "a \<noteq> []" and bins: "0 < bins"
  shows "\<exists>bs. mquantiles a (map (\<lambda>j. real j / real bins) [0..<bins + 1]) = map Some bs \<and>
           length bs = bins + 1 \<and> sorted bs \<and>
           hd bs = Min (set a) \<and> last bs = Max (set a)"
proof (cases "length a = 1")
  case True
  define bs where "bs = map (\<lambda>j :: nat. sort a ! 0) [0..<bins + 1]"
  have one: "length (sort a) = 1" using True by simp
  have m: "mquantiles a (map (\<lambda>j. real j / real bins) [0..<bins + 1]) = map Some bs"
    unfolding mquantiles_def Let_def one bs_def by (simp add: comp_def del: upt_Suc)
  have len: "length bs = bins + 1" by (simp add: bs_def)
  have srt: "sorted bs"
    unfolding sorted_iff_nth_mono len by (simp add: bs_def del: upt_Suc)
  have nebs: "bs \<noteq> []" using len by auto
  have h: "hd bs = sort a ! 0"
    unfolding hd_conv_nth [OF nebs] by (simp add: bs_def del: upt_Suc)
  have l: "last bs = sort a ! 0"
    unfolding last_conv_nth [OF nebs] len by (simp add: bs_def del: upt_Suc)
  from one have "last (sort a) = sort a ! 0"
    by (metis One_nat_def diff_self_eq_0 last_conv_nth length_0_conv zero_neq_one)
  with sort_first_last [OF ne] have "sort a ! 0 = Min (set a)" "sort a ! 0 = Max (set a)"
    by simp_all
  with m len srt h l show ?thesis by auto
next
  case False
  have "0 < length a" using ne by (cases a) simp_all
  with False have "2 \<le> length a" by linarith
  then have n: "2 \<le> length (sort a)" by simp
  define bs where "bs = map (\<lambda>j. quantile_1D (sort a) (real j / real bins)) [0..<bins + 1]"
  have c: "(length (sort a) = 0) = False" "(length (sort a) = 1) = False"
    using n ne by simp_all
  have m: "mquantiles a (map (\<lambda>j. real j / real bins) [0..<bins + 1]) = map Some bs"
    unfolding mquantiles_def Let_def c bs_def by (simp add: comp_def del: upt_Suc)
  have len: "length bs = bins + 1" by (simp add: bs_def)
  have nth: "bs ! i = quantile_1D (sort a) (real i / real bins)" if "i < bins + 1" for i
    unfolding bs_def using that by (simp only: nth_map_upt add_0_left diff_zero)
  have srt: "sorted bs"
    unfolding sorted_iff_nth_mono len
  proof (intro allI impI)
    fix i j assume ij: "i \<le> j" "j < bins + 1"
    then have "real i / real bins \<le> real j / real bins"
      by (simp add: divide_right_mono)
    then show "bs ! i \<le> bs ! j"
      unfolding nth [OF ij(2)] using ij nth [of i]
      by (simp add: quantile_1D_mono [OF sorted_sort n])
  qed
  have nebs: "bs \<noteq> []" using len by auto
  have h: "hd bs = sort a ! 0"
    unfolding hd_conv_nth [OF nebs] using nth [of 0] quantile_1D_first [OF n] by simp
  have "bs ! bins = quantile_1D (sort a) 1"
    using nth [of bins] bins by simp
  then have l: "last bs = last (sort a)"
    unfolding last_conv_nth [OF nebs] len using quantile_1D_last [OF n] by simp
  from m len srt h l sort_first_last [OF ne] show ?thesis by auto
qed

lemma takeWhile_snoc_le: "\<not> P y \<Longrightarrow> length (takeWhile P (xs @ [y])) \<le> length xs"
  by (induction xs) simp_all

lemma takeWhile_snoc_all: "\<forall>x\<in>set xs. P x \<Longrightarrow> \<not> P y \<Longrightarrow> takeWhile P (xs @ [y]) = xs"
  by (induction xs) simp_all

lemma takeWhile_hd: "xs \<noteq> [] \<Longrightarrow> P (hd xs) \<Longrightarrow> 1 \<le> length (takeWhile P xs)"
  by (cases xs) simp_all

lemma update_last: "xs \<noteq> [] \<Longrightarrow> xs[length xs - 1 := y] = butlast xs @ [y]"
  by (cases xs rule: rev_cases) (simp_all add: list_update_append)

lemma digitize_bumped:
  assumes srt: "sorted bs" and len: "2 \<le> length bs"
    and h: "hd bs = Min (set a)" and l: "last bs = Max (set a)"
  shows "np_digitize a (bs[length bs - 1 := last bs + 1]) =
           Inr (map (searchsorted_right (butlast bs @ [last bs + 1])) a)"
    and "v \<in> set a \<Longrightarrow> 1 \<le> searchsorted_right (butlast bs @ [last bs + 1]) v"
    and "v \<in> set a \<Longrightarrow> searchsorted_right (butlast bs @ [last bs + 1]) v \<le> length bs - 1"
    and "v \<in> set a \<Longrightarrow> v = Max (set a) \<Longrightarrow>
           searchsorted_right (butlast bs @ [last bs + 1]) v = length bs - 1"
proof -
  have ne: "bs \<noteq> []" using len by auto
  have bl: "butlast bs \<noteq> []" using len by (cases bs rule: rev_cases) auto
  have upd: "bs[length bs - 1 := last bs + 1] = butlast bs @ [last bs + 1]"
    using ne by (rule update_last)
  have sb: "sorted (butlast bs)" by (simp add: sorted_butlast ne srt)
  have le_last: "x \<le> last bs" if "x \<in> set bs" for x
    using sorted_last_Max [OF srt ne] that by simp
  have in_bl: "x \<in> set bs" if "x \<in> set (butlast bs)" for x
    using that by (rule in_set_butlastD)
  have sorted_b: "sorted (butlast bs @ [last bs + 1])"
    unfolding sorted_append using sb le_last in_bl by fastforce
  show "np_digitize a (bs[length bs - 1 := last bs + 1]) =
      Inr (map (searchsorted_right (butlast bs @ [last bs + 1])) a)"
    unfolding upd np_digitize_def monotonicity_def using sorted_b by simp
  have hd_b: "hd (butlast bs @ [last bs + 1]) = Min (set a)"
    using bl h ne by (cases bs) auto
  {
    assume v: "v \<in> set a"
    then have lo: "Min (set a) \<le> v" and hi: "v \<le> Max (set a)" by simp_all
    show "1 \<le> searchsorted_right (butlast bs @ [last bs + 1]) v"
      unfolding searchsorted_right_def
      by (rule takeWhile_hd) (simp_all add: hd_b lo)
    have nl: "\<not> last bs + 1 \<le> v" using hi l by simp
    show "searchsorted_right (butlast bs @ [last bs + 1]) v \<le> length bs - 1"
      unfolding searchsorted_right_def
      using takeWhile_snoc_le [of "\<lambda>b. b \<le> v" "last bs + 1" "butlast bs", OF nl] by simp
  }
  {
    assume v: "v \<in> set a" "v = Max (set a)"
    have nl: "\<not> last bs + 1 \<le> v" using v l by simp
    have all: "\<forall>x\<in>set (butlast bs). x \<le> v"
      using le_last in_bl v l by auto
    show "searchsorted_right (butlast bs @ [last bs + 1]) v = length bs - 1"
      unfolding searchsorted_right_def takeWhile_snoc_all [of "butlast bs" "\<lambda>b. b \<le> v", OF all nl]
      by simp
  }
qed


lemma ma_data_Some: "ma_data (map Some bs) = bs"
  by (simp add: ma_data_def comp_def)

lemma bin_evenly_unfold:
  assumes lin: "np_linspace 0 1 ((if int (length a) < B then int (length a) else B) + 1) = Inr fr"
    and mq: "mquantiles a fr = map Some bs"
    and ne: "bs \<noteq> []"
    and dg: "np_digitize a (bs[length bs - 1 := fl_add_one (last bs)]) = Inr ds"
  shows "bin_evenly a B = Inr (map Some bs, ds)"
  using ne dg by (simp add: bin_evenly_def Let_def lin mq ma_data_Some)

lemma quantile_1D_at:
  assumes al: "aleph = real (length x) * p + (4 / 10 + p * (1 - 4 / 10 - 4 / 10))"
    and k: "of_int k \<le> aleph" "aleph < of_int k + 1"
    and r: "1 \<le> k" "k \<le> int (length x) - 1"
  shows "quantile_1D x p =
     (1 - (aleph - of_int k)) * x ! nat (k - 1) + (aleph - of_int k) * x ! nat k"
proof -
  have fa: "\<lfloor>aleph\<rfloor> = k" using k by linarith
  have "1 \<le> aleph" using k(1) r(1) by linarith
  then have c: "np_clip aleph 1 (real (length x) - 1) = min aleph (real (length x) - 1)"
    by (simp add: np_clip_def max_def)
  have kn: "of_int k \<le> real (length x) - 1" using r(2) by linarith
  have "\<lfloor>min aleph (real (length x) - 1)\<rfloor> = k"
  proof (cases "aleph \<le> real (length x) - 1")
    case True
    then show ?thesis using fa by (simp add: min_def)
  next
    case False
    then have "min aleph (real (length x) - 1) = real (length x) - 1" by (simp add: min_def)
    moreover have "real (length x) - 1 < of_int k + 1" using False k(2) by linarith
    ultimately show ?thesis using kn by (simp add: floor_unique)
  qed
  then have fk: "k = \<lfloor>np_clip aleph 1 (real (length x) - 1)\<rfloor>" unfolding c by simp
  have g: "aleph - of_int k = np_clip (aleph - of_int k) 0 1"
    using k by (simp add: np_clip_def min_def max_def)
  show ?thesis using al fk g by (rule quantile_1D_unfold)
qed

text \<open>
  Where the largest value is under \<open>2 ^ 53\<close> in magnitude, so that adding 1 to it gives a
  larger number: for a non-empty array of values and at least one requested bin,
  \<^verbatim>\<open>bin_evenly\<close> returns the quantiles of the values at the fractions \<open>j / bins\<close> for
  \<open>j\<close> from 0 to \<open>bins\<close>, the least of the requested number and the number of values.
  These \<open>bins + 1\<close> boundaries increase from the least value to the largest; there is one
  digit for every value, every digit is between 1 and \<open>bins\<close>, and the digit of a value
  equal to the largest is \<open>bins\<close>. The values 1 to 10 in 5 bins have the boundaries
  1, 2.44, 4.48, 6.52, 8.56, 10, and every bin receives two of them.
\<close>

lemma bin_evenly_exact:
  assumes ne: "values \<noteq> []" and B: "1 \<le> max_bins"
    and small: "- (2 ^ 53) \<le> Max (set values)" "Max (set values) < 2 ^ 53"
  shows "(\<exists>boundaries digits.
            bin_evenly values max_bins = Inr (map Some boundaries, digits) \<and>
            map Some boundaries =
              mquantiles values (map (\<lambda>j. real j / real (nb_bins values max_bins))
                                     [0..<nb_bins values max_bins + 1]) \<and>
            length boundaries = nb_bins values max_bins + 1 \<and>
            sorted boundaries \<and>
            hd boundaries = Min (set values) \<and> last boundaries = Max (set values) \<and>
            length digits = length values \<and>
            (\<forall>d\<in>set digits. 1 \<le> d \<and> d \<le> nb_bins values max_bins) \<and>
            (\<forall>i<length values. values ! i = Max (set values) \<longrightarrow>
               digits ! i = nb_bins values max_bins)) \<and>
         bin_evenly [1, 2, 3, 4, 5, 6, 7, 8, 9, 10] 5 =
           Inr (map Some [1, 61 / 25, 112 / 25, 163 / 25, 214 / 25, 10],
                [1, 1, 2, 2, 3, 3, 4, 4, 5, 5]) \<and>
         map (count_list [1, 1, 2, 2, 3, 3, 4, 4, 5, 5 :: nat]) [1, 2, 3, 4, 5] = [2, 2, 2, 2, 2]"
proof -
  define bins where "bins = nb_bins values max_bins"
  have pos: "0 < bins"
    using ne B by (cases "values") (simp_all add: bins_def nb_bins_def)
  have mb: "(if int (length values) < max_bins then int (length values) else max_bins) = int bins"
    unfolding bins_def nb_bins_def min_def using B by (auto simp add: nat_le_iff)
  obtain bs where mq: "mquantiles values (map (\<lambda>j. real j / real bins) [0..<bins + 1]) = map Some bs"
    and len: "length bs = bins + 1" and srt: "sorted bs"
    and h: "hd bs = Min (set values)" and l: "last bs = Max (set values)"
    using quantile_boundaries [OF ne pos] by blast
  have len2: "2 \<le> length bs" using len pos by simp
  have nebs: "bs \<noteq> []" using len by auto
  define ds where "ds = map (searchsorted_right (butlast bs @ [last bs + 1])) values"
  note dg = digitize_bumped [OF srt len2 h l]
  have bump: "fl_add_one (last bs) = last bs + 1"
    unfolding l fl_add_one_def using small by simp
  have lin: "np_linspace 0 1
      ((if int (length values) < max_bins then int (length values) else max_bins) + 1) =
      Inr (map (\<lambda>j. real j / real bins) [0..<bins + 1])"
    unfolding mb by (rule np_linspace_unit [OF pos])
  have code: "bin_evenly values max_bins = Inr (map Some bs, ds)"
    using lin mq nebs dg(1) unfolding ds_def bump [symmetric] by (rule bin_evenly_unfold)
  have range: "\<forall>d\<in>set ds. 1 \<le> d \<and> d \<le> bins"
    using dg(2) dg(3) len by (auto simp add: ds_def)
  have top: "\<forall>i<length values. values ! i = Max (set values) \<longrightarrow> ds ! i = bins"
  proof (intro allI impI)
    fix i assume i: "i < length values" and m: "values ! i = Max (set values)"
    have "values ! i \<in> set values" using i by simp
    from dg(4) [OF this m] show "ds ! i = bins" using i len by (simp add: ds_def)
  qed
  have general: "\<exists>boundaries digits.
      bin_evenly values max_bins = Inr (map Some boundaries, digits) \<and>
      map Some boundaries =
        mquantiles values (map (\<lambda>j. real j / real (nb_bins values max_bins))
                               [0..<nb_bins values max_bins + 1]) \<and>
      length boundaries = nb_bins values max_bins + 1 \<and>
      sorted boundaries \<and>
      hd boundaries = Min (set values) \<and> last boundaries = Max (set values) \<and>
      length digits = length values \<and>
      (\<forall>d\<in>set digits. 1 \<le> d \<and> d \<le> nb_bins values max_bins) \<and>
      (\<forall>i<length values. values ! i = Max (set values) \<longrightarrow>
         digits ! i = nb_bins values max_bins)"
    unfolding bins_def [symmetric]
    using code mq [symmetric] len srt h l range top
    by (intro exI [of _ bs] exI [of _ ds]) (simp add: ds_def)
  have fr: "np_linspace 0 1 ((if int (length [1, 2, 3, 4, 5, 6, 7, 8, 9, 10 :: real]) < 5
        then int (length [1, 2, 3, 4, 5, 6, 7, 8, 9, 10 :: real]) else 5) + 1) =
      Inr [0, 1 / 5, 2 / 5, 3 / 5, 4 / 5, 1]"
    by (simp add: np_linspace_def upt_rec [of _ "numeral _"] upt_rec [of _ "Suc _"])
  have srt10: "sort [1, 2, 3, 4, 5, 6, 7, 8, 9, 10 :: real] = [1, 2, 3, 4, 5, 6, 7, 8, 9, 10]"
    by simp
  have q0: "quantile_1D [1, 2, 3, 4, 5, 6, 7, 8, 9, 10] 0 = 1"
    using quantile_1D_first [of "[1, 2, 3, 4, 5, 6, 7, 8, 9, 10]"] by simp
  have q1: "quantile_1D [1, 2, 3, 4, 5, 6, 7, 8, 9, 10] (1 / 5) = 61 / 25"
    using quantile_1D_at [of "61 / 25" "[1, 2, 3, 4, 5, 6, 7, 8, 9, 10]" "1 / 5" 2] by simp
  have q2: "quantile_1D [1, 2, 3, 4, 5, 6, 7, 8, 9, 10] (2 / 5) = 112 / 25"
    using quantile_1D_at [of "112 / 25" "[1, 2, 3, 4, 5, 6, 7, 8, 9, 10]" "2 / 5" 4] by simp
  have q3: "quantile_1D [1, 2, 3, 4, 5, 6, 7, 8, 9, 10] (3 / 5) = 163 / 25"
    using quantile_1D_at [of "163 / 25" "[1, 2, 3, 4, 5, 6, 7, 8, 9, 10]" "3 / 5" 6] by simp
  have q4: "quantile_1D [1, 2, 3, 4, 5, 6, 7, 8, 9, 10] (4 / 5) = 214 / 25"
    using quantile_1D_at [of "214 / 25" "[1, 2, 3, 4, 5, 6, 7, 8, 9, 10]" "4 / 5" 8] by simp
  have q5: "quantile_1D [1, 2, 3, 4, 5, 6, 7, 8, 9, 10] 1 = 10"
    using quantile_1D_last [of "[1, 2, 3, 4, 5, 6, 7, 8, 9, 10]"] by simp
  have mq10: "mquantiles [1, 2, 3, 4, 5, 6, 7, 8, 9, 10] [0, 1 / 5, 2 / 5, 3 / 5, 4 / 5, 1] =
      map Some [1, 61 / 25, 112 / 25, 163 / 25, 214 / 25, 10]"
    unfolding mquantiles_def Let_def srt10 by (simp add: q0 q1 q2 q3 q4 q5)
  have dg10: "np_digitize [1, 2, 3, 4, 5, 6, 7, 8, 9, 10]
      ([1, 61 / 25, 112 / 25, 163 / 25, 214 / 25, 10]
         [length [1, 61 / 25, 112 / 25, 163 / 25, 214 / 25, 10 :: real] - 1 :=
            fl_add_one (last [1, 61 / 25, 112 / 25, 163 / 25, 214 / 25, 10])]) =
      Inr [1, 1, 2, 2, 3, 3, 4, 4, 5, 5]"
    by (simp add: fl_add_one_def np_digitize_def monotonicity_def searchsorted_right_def)
  have concrete: "bin_evenly [1, 2, 3, 4, 5, 6, 7, 8, 9, 10] 5 =
      Inr (map Some [1, 61 / 25, 112 / 25, 163 / 25, 214 / 25, 10],
           [1, 1, 2, 2, 3, 3, 4, 4, 5, 5])"
    using fr mq10 _ dg10 by (rule bin_evenly_unfold) simp
  have counts: "map (count_list [1, 1, 2, 2, 3, 3, 4, 4, 5, 5 :: nat]) [1, 2, 3, 4, 5] =
      [2, 2, 2, 2, 2]"
    by simp
  from general concrete counts show ?thesis by (intro conjI)
qed

text \<open>
  C8. The largest value is not always in the last bin. The comment in the function says
  that the last boundary must be higher than the largest value for that value to belong to
  the last bin, and the function adds 1 to that boundary. On the values 1e17 and 2e17 in
  two bins the sum \<open>2e17 + 1\<close> rounds back to \<open>2e17\<close>: the boundaries are
  1e17, 1.5e17 and 2e17, and the largest value is given the digit 3, which is no bin.
\<close>

theorem bin_evenly_last_bin:
  "nb_bins [10 ^ 17, 2 * 10 ^ 17] 2 = 2 \<and>
   bin_evenly [10 ^ 17, 2 * 10 ^ 17] 2 =
     Inr (map Some [10 ^ 17, 15 * 10 ^ 16, 2 * 10 ^ 17], [1, 3])"
proof -
  have lin: "np_linspace 0 1
      ((if int (length [10 ^ 17, 2 * 10 ^ 17 :: real]) < 2
        then int (length [10 ^ 17, 2 * 10 ^ 17 :: real]) else 2) + 1) = Inr [0, 1 / 2, 1]"
    by (simp add: np_linspace_def upt_rec [of _ "numeral _"] upt_rec [of _ "Suc _"])
  have srt: "sort [10 ^ 17, 2 * 10 ^ 17 :: real] = [10 ^ 17, 2 * 10 ^ 17]"
    by simp
  have q0: "quantile_1D [10 ^ 17, 2 * 10 ^ 17] 0 = 10 ^ 17"
    using quantile_1D_first [of "[10 ^ 17, 2 * 10 ^ 17]"] by simp
  have q1: "quantile_1D [10 ^ 17, 2 * 10 ^ 17] (1 / 2) = 15 * 10 ^ 16"
    using quantile_1D_at [of "3 / 2" "[10 ^ 17, 2 * 10 ^ 17]" "1 / 2" 1] by simp
  have q2: "quantile_1D [10 ^ 17, 2 * 10 ^ 17] 1 = 2 * 10 ^ 17"
    using quantile_1D_last [of "[10 ^ 17, 2 * 10 ^ 17]"] by simp
  have mq: "mquantiles [10 ^ 17, 2 * 10 ^ 17] [0, 1 / 2, 1] =
      map Some [10 ^ 17, 15 * 10 ^ 16, 2 * 10 ^ 17]"
    unfolding mquantiles_def Let_def srt
    by (simp add: q0 [simplified] q1 [simplified] q2 [simplified])
  have dg: "np_digitize [10 ^ 17, 2 * 10 ^ 17]
      ([10 ^ 17, 15 * 10 ^ 16, 2 * 10 ^ 17]
         [length [10 ^ 17, 15 * 10 ^ 16, 2 * 10 ^ 17 :: real] - 1 :=
            fl_add_one (last [10 ^ 17, 15 * 10 ^ 16, 2 * 10 ^ 17])]) = Inr [1, 3]"
    by (simp add: fl_add_one_def np_digitize_def monotonicity_def searchsorted_right_def)
  have "bin_evenly [10 ^ 17, 2 * 10 ^ 17] 2 =
      Inr (map Some [10 ^ 17, 15 * 10 ^ 16, 2 * 10 ^ 17], [1, 3])"
    using lin mq _ dg by (rule bin_evenly_unfold) simp
  then show ?thesis by (simp add: nb_bins_def)
qed

subsection \<open>The pooled sample and the density\<close>

text \<open>
  With a probability for every value, the loop of \<^verbatim>\<open>gen_pdf\<close> raises nothing and
  builds the pooled sample.
\<close>

lemma combine_pooled:
  assumes "val_idx + length vals \<le> length ps"
  shows "combine (map (map_option (\<lambda>p. np_around (100 * p))) ps) val_idx vals acc =
     Inr (acc @ pooled_sample vals (drop val_idx ps))"
  using assms
proof (induction vals arbitrary: val_idx acc)
  case Nil
  show ?case by (simp add: pooled_sample_def)
next
  case (Cons v vals)
  have i: "val_idx < length ps" using Cons.prems by simp
  have d: "drop val_idx ps = ps ! val_idx # drop (Suc val_idx) ps"
    using i by (simp add: Cons_nth_drop_Suc)
  have ih: "combine (map (map_option (\<lambda>p. np_around (100 * p))) ps) (Suc val_idx) vals a =
      Inr (a @ pooled_sample vals (drop (Suc val_idx) ps))" for a
    using Cons.prems by (intro Cons.IH) simp
  show ?case
  proof (cases v)
    case None
    then show ?thesis by (simp add: ih d pooled_sample_def)
  next
    case (Some x)
    show ?thesis
    proof (cases "ps ! val_idx")
      case None
      then show ?thesis using Some i by (simp add: ih d pooled_sample_def)
    next
      case (Some q)
      then show ?thesis using \<open>v = Some x\<close> i by (simp add: ih d pooled_sample_def)
    qed
  qed
qed

lemma gen_pdf_pooled:
  assumes "length vals \<le> length ps"
  shows "gen_pdf fit vals ps grid =
     (case gaussian_kde fit (pooled_sample vals ps) grid of
        Inr result \<Rightarrow> Inr (Some result)
      | Inl e \<Rightarrow> if caught e then Inr None else Inl e)"
  using combine_pooled [of 0 vals ps "[]"] assms by (simp add: gen_pdf_def)


lemma pooled_sample_plain:
  "pooled_sample (map Some xs) (map Some qs) =
     concat (map2 (\<lambda>x q. replicate (nat (np_around (100 * q))) x) xs qs)"
  by (simp add: pooled_sample_def zip_map_map case_prod_unfold comp_def)

text \<open>
  C9. With a probability for every value, \<^verbatim>\<open>gen_pdf\<close> gives the estimator the pooled
  sample: every value that is not masked, repeated as many times as its probability times
  100 rounds to, a value of rounded weight 0 being left out; on plain arrays that is the
  concatenation of these repetitions. When the estimation fails on the pooled sample, with
  fewer than two points or with a \<^verbatim>\<open>LinAlgError\<close> or \<^verbatim>\<open>ValueError\<close> of its
  numerical part, \<^verbatim>\<open>gen_pdf\<close> returns \<^verbatim>\<open>None\<close> and raises nothing. When
  \<^verbatim>\<open>gen_pdf\<close> returns \<^verbatim>\<open>None\<close> for a variable, \<^verbatim>\<open>save_pdf\<close> prints its message
  for the observation and that variable, writes no table for it, and goes on with the
  next variable.
\<close>

theorem gen_pdf_policy:
  assumes len: "length vals \<le> length ps"
  shows "gen_pdf fit vals ps grid =
           (case gaussian_kde fit (pooled_sample vals ps) grid of
              Inr result \<Rightarrow> Inr (Some result)
            | Inl e \<Rightarrow> if caught e then Inr None else Inl e) \<and>
         pooled_sample (map Some xs) (map Some qs) =
           concat (map2 (\<lambda>x q. replicate (nat (np_around (100 * q))) x) xs qs) \<and>
         (length (pooled_sample vals ps) < 2 \<or>
          fit (pooled_sample vals ps) grid = Inl LinAlgError \<or>
          fit (pooled_sample vals ps) grid = Inl ValueError \<longrightarrow>
            gen_pdf fit vals ps grid = Inr None) \<and>
         (var_index < length model_variables \<and>
          pdf_grid_of (model_variables ! var_index) = Inr pdf_grid \<and>
          gen_pdf fit (map Some (model_variables ! var_index)) (map Some likelihood) pdf_grid =
            Inr None \<longrightarrow>
            save_pdf_loop fit obsid model_variables likelihood var_index (var_name # names) events =
              save_pdf_loop fit obsid model_variables likelihood (Suc var_index) names
                (events @ [Message obsid var_name]))"
proof (intro conjI impI)
  show eq: "gen_pdf fit vals ps grid =
      (case gaussian_kde fit (pooled_sample vals ps) grid of
         Inr result \<Rightarrow> Inr (Some result)
       | Inl e \<Rightarrow> if caught e then Inr None else Inl e)"
    using len by (rule gen_pdf_pooled)
  show "pooled_sample (map Some xs) (map Some qs) =
      concat (map2 (\<lambda>x q. replicate (nat (np_around (100 * q))) x) xs qs)"
    by (rule pooled_sample_plain)
  assume "length (pooled_sample vals ps) < 2 \<or>
      fit (pooled_sample vals ps) grid = Inl LinAlgError \<or>
      fit (pooled_sample vals ps) grid = Inl ValueError"
  then have "gaussian_kde fit (pooled_sample vals ps) grid = Inl LinAlgError \<or>
      gaussian_kde fit (pooled_sample vals ps) grid = Inl ValueError"
    by (auto simp add: gaussian_kde_def)
  then show "gen_pdf fit vals ps grid = Inr None"
    unfolding eq by auto
next
  assume "var_index < length model_variables \<and>
      pdf_grid_of (model_variables ! var_index) = Inr pdf_grid \<and>
      gen_pdf fit (map Some (model_variables ! var_index)) (map Some likelihood) pdf_grid =
        Inr None"
  then show "save_pdf_loop fit obsid model_variables likelihood var_index (var_name # names) events =
      save_pdf_loop fit obsid model_variables likelihood (Suc var_index) names
        (events @ [Message obsid var_name])"
    by simp
qed

theorem gen_pdf_policy_witness:
  "gen_pdf (\<lambda>d g. Inr g) [Some 3, None, Some 5] [Some (1 / 40), Some 1, Some 0] [0, 1] =
     Inr (Some [0, 1]) \<and>
   gen_pdf (\<lambda>d g. Inr g) [Some 3, Some 5] [Some (1 / 100), Some 0] [0, 1] = Inr None \<and>
   save_pdf (\<lambda>d g. Inr g) ''obs'' [''age''] [[3, 5]] [1 / 100, 0] =
     ([Message ''obs'' ''age''], None)"
proof -
  have r: "np_around (5 / 2) = 2" "np_around 1 = 1" "np_around 0 = 0" "np_around 100 = 100"
    by (simp_all add: np_around_def)
  have p1: "pooled_sample [Some 3, None, Some 5] [Some (1 / 40), Some 1, Some 0] = [3, 3]"
    unfolding pooled_sample_def by (simp add: r numeral_2_eq_2)
  have p2: "pooled_sample [Some 3, Some 5] [Some (1 / 100), Some 0] = [3]"
    unfolding pooled_sample_def by (simp add: r)
  have a: "gen_pdf (\<lambda>d g. Inr g) [Some 3, None, Some 5] [Some (1 / 40), Some 1, Some 0] [0, 1] =
      Inr (Some [0, 1])"
    using gen_pdf_policy [of "[Some 3, None, Some 5]" "[Some (1 / 40), Some 1, Some 0]"
        "\<lambda>d g. Inr g" "[0, 1]"]
    by (simp add: p1 gaussian_kde_def)
  have b: "gen_pdf (\<lambda>d g. Inr g) [Some 3, Some 5] [Some (1 / 100), Some 0] g = Inr None" for g
    using gen_pdf_policy [of "[Some 3, Some 5]" "[Some (1 / 100), Some 0]" "\<lambda>d g. Inr g" g]
    by (simp add: p2 gaussian_kde_def)
  obtain g where g: "pdf_grid_of [3, 5] = Inr g"
    by (simp add: pdf_grid_of_def np_linspace_def PDF_NB_POINTS_def)
  have "save_pdf_loop (\<lambda>d g. Inr g) ''obs'' [[3, 5]] [1 / 100, 0] 0 [''age''] [] =
      save_pdf_loop (\<lambda>d g. Inr g) ''obs'' [[3, 5]] [1 / 100, 0] (Suc 0) [] ([] @ [Message ''obs'' ''age''])"
    using gen_pdf_policy [of "[]" "[]" "\<lambda>d g. Inr g" "[]" "[]" "[]" 0 "[[3, 5]]" g "[1 / 100, 0]"
        "''obs''" "''age''" "[]" "[]"] g b [of g]
    by simp
  then have c: "save_pdf (\<lambda>d g. Inr g) ''obs'' [''age''] [[3, 5]] [1 / 100, 0] =
      ([Message ''obs'' ''age''], None)"
    by (simp add: save_pdf_def)
  from a b [of "[0, 1]"] c show ?thesis by simp
qed

end
